theory Spec2Isabelle
  imports Main "HOL-Library.Word"
begin

unbundle bit_operations_syntax

section \<open>Data model of \<open>src/logo/bmp-to-logo.py\<close>\<close>

text \<open>
  A Python \<open>str\<close> is a sequence of Unicode code points.  The messages of the script are
  Cyrillic, so a string is a list of code points (\<open>nat\<close>); the ASCII parts are written
  through \<open>ascii\<close>.
\<close>

type_synonym ustring = "nat list"

definition ascii :: "string \<Rightarrow> ustring" where
  "ascii s = map of_char s"

text \<open>
  The exceptions that the statements of the script can raise.  \<open>Image.open\<close> raises with
  a message of the imaging library (\<open>LibraryError\<close> carries \<open>str(e)\<close>); pixel access
  out of range raises \<open>IndexError\<close>; \<open>bytearray.append\<close> of a value outside
  \<open>range(256)\<close> raises \<open>ValueError\<close>; writing text that the encoding of
  \<open>sys.stdout\<close> cannot represent raises \<open>UnicodeEncodeError\<close> (it carries
  \<open>str(e)\<close> too).
\<close>

datatype py_exception =
  LibraryError ustring | IndexError | ValueError | UnicodeEncodeError ustring

text \<open>
  An image of the imaging library: \<open>img.size\<close> is \<open>(width, height)\<close>, and the samples
  are read by column \<open>x\<close> and row \<open>y\<close>.  The sample type \<open>'a\<close> depends on the mode of
  the image; after \<open>convert('1')\<close> it is an integer, 0 or 255.
\<close>

record 'a image =
  im_size :: "nat \<times> nat"
  im_data :: "nat \<Rightarrow> nat \<Rightarrow> 'a"

text \<open>
  \<open>pixels = img.load()\<close> and \<open>pixels[x, y]\<close>: the pixel access object checks the
  coordinates against the size of the image and raises \<open>IndexError\<close> outside.
\<close>

definition load :: "'a image \<Rightarrow> nat \<Rightarrow> nat \<Rightarrow> py_exception + 'a" where
  "load img x y =
     (if x < fst (im_size img) \<and> y < snd (im_size img)
      then Inr (im_data img x y) else Inl IndexError)"

text \<open>\<open>byte_array.append(v)\<close>: a bytearray holds integers of \<open>range(256)\<close> only.\<close>

definition bytearray_append :: "int list \<Rightarrow> int \<Rightarrow> py_exception + int list" where
  "bytearray_append byte_array v =
     (if 0 \<le> v \<and> v < 256 then Inr (byte_array @ [v]) else Inl ValueError)"

text \<open>
  \<open>for i in ...: body\<close> over a state \<open>s\<close>; an exception raised by the body ends the
  loop.
\<close>

fun for_each :: "nat list \<Rightarrow> (nat \<Rightarrow> 's \<Rightarrow> py_exception + 's) \<Rightarrow> 's \<Rightarrow> py_exception + 's" where
  "for_each [] body s = Inr s"
| "for_each (i # rest) body s =
     (case body i s of Inl e \<Rightarrow> Inl e | Inr s' \<Rightarrow> for_each rest body s')"

section \<open>The packing loops (lines 34 to 56)\<close>

text \<open>Lines 47 to 55: the body of \<open>for bit in range(8)\<close>, on \<open>byte_value\<close>.\<close>

definition pack_bit ::
  "(nat \<Rightarrow> nat \<Rightarrow> py_exception + int) \<Rightarrow> nat \<Rightarrow> nat \<Rightarrow> nat \<Rightarrow> nat \<Rightarrow> int \<Rightarrow> py_exception + int" where
  "pack_bit pixels height page x bit_no byte_value =
     (let y = page * 8 + bit_no in
      if y < height then
        (case pixels x y of
           Inl e \<Rightarrow> Inl e
         | Inr pixel_value \<Rightarrow>
             (let bit_value = (if pixel_value = 0 then 1 else 0 :: int)
              in Inr (byte_value OR push_bit bit_no bit_value)))
      else Inr byte_value)"

text \<open>Lines 45 to 56: the body of \<open>for x in range(width)\<close>, on \<open>byte_array\<close>.\<close>

definition pack_column ::
  "(nat \<Rightarrow> nat \<Rightarrow> py_exception + int) \<Rightarrow> nat \<Rightarrow> nat \<Rightarrow> nat \<Rightarrow> int list \<Rightarrow> py_exception + int list" where
  "pack_column pixels height page x byte_array =
     (case for_each [0..<8] (pack_bit pixels height page x) 0 of
        Inl e \<Rightarrow> Inl e
      | Inr byte_value \<Rightarrow> bytearray_append byte_array byte_value)"

text \<open>Lines 44 to 56: the body of \<open>for page in range(pages)\<close>.\<close>

definition pack_page ::
  "(nat \<Rightarrow> nat \<Rightarrow> py_exception + int) \<Rightarrow> nat \<Rightarrow> nat \<Rightarrow> nat \<Rightarrow> int list \<Rightarrow> py_exception + int list" where
  "pack_page pixels width height page byte_array =
     for_each [0..<width] (pack_column pixels height page) byte_array"

text \<open>
  Lines 30 to 56: \<open>pixels = img.load()\<close>, \<open>width, height = img.size\<close>,
  \<open>pages = height // 8\<close>, \<open>byte_array = bytearray()\<close> and the three loops.
\<close>

definition pack_image :: "int image \<Rightarrow> py_exception + int list" where
  "pack_image img =
     (let pixels = load img;
          width = fst (im_size img);
          height = snd (im_size img);
          pages = height div 8
      in for_each [0..<pages] (pack_page pixels width height) [])"

text \<open>A pixel is lit on the display when its 1-bit sample is 0 (lines 53 and 94).\<close>

definition lit :: "int image \<Rightarrow> nat \<Rightarrow> nat \<Rightarrow> bool" where
  "lit img x y = (im_data img x y = 0)"

section \<open>The imaging library, the operating system and the interpreter\<close>

text \<open>
  The script calls the imaging library (\<open>Image.open\<close>, \<open>resize\<close>, \<open>convert\<close>,
  \<open>load\<close>), \<open>os.path.exists\<close>, \<open>str.lower\<close> and \<open>print\<close>; they are not code of
  the repository, and the model takes what they do as parameters.  Each call of the
  imaging library can raise: an image file is decoded lazily, so a damaged file that
  opens can still fail in \<open>resize\<close>, \<open>convert\<close> or \<open>load\<close>.
  \<^item> \<open>Image_resize img size\<close> raises or gives the samples of the image resampled to
    \<open>size\<close>; \<open>Image_convert img\<close> raises or gives the samples of the 1-bit conversion;
    \<open>Image_load img\<close> is the exception that \<open>img.load()\<close> raises, if any.
  \<^item> \<open>stdout_encodes c\<close> says whether the encoding of \<open>sys.stdout\<close> can represent the
    code point \<open>c\<close>; \<open>encode_error s\<close> is \<open>str(e)\<close> of the \<open>UnicodeEncodeError\<close>
    raised for the text \<open>s\<close>.
  \<^item> \<open>traceback e\<close> is what the interpreter writes to \<open>sys.stderr\<close> when the
    exception \<open>e\<close> ends the program.
\<close>

record 'a library =
  Image_open :: "ustring \<Rightarrow> py_exception + 'a image"
  Image_resize :: "'a image \<Rightarrow> nat \<times> nat \<Rightarrow> py_exception + (nat \<Rightarrow> nat \<Rightarrow> 'a)"
  Image_convert :: "'a image \<Rightarrow> py_exception + (nat \<Rightarrow> nat \<Rightarrow> int)"
  Image_load :: "int image \<Rightarrow> py_exception option"
  os_path_exists :: "ustring \<Rightarrow> bool"
  str_lower :: "ustring \<Rightarrow> ustring"
  stdout_encodes :: "nat \<Rightarrow> bool"
  encode_error :: "ustring \<Rightarrow> ustring"
  traceback :: "py_exception \<Rightarrow> ustring"

text \<open>
  \<open>img.resize(size, Image.Resampling.LANCZOS)\<close>: it raises, or returns an image of the
  requested size.
\<close>

definition resize :: "'a library \<Rightarrow> 'a image \<Rightarrow> nat \<times> nat \<Rightarrow> py_exception + 'a image" where
  "resize lib img sz =
     (case Image_resize lib img sz of
        Inl e \<Rightarrow> Inl e
      | Inr samples \<Rightarrow> Inr \<lparr>im_size = sz, im_data = samples\<rparr>)"

text \<open>
  \<open>img.convert('1')\<close>: it raises, or returns an image of the same size with 1-bit
  samples.
\<close>

definition convert :: "'a library \<Rightarrow> 'a image \<Rightarrow> py_exception + int image" where
  "convert lib img =
     (case Image_convert lib img of
        Inl e \<Rightarrow> Inl e
      | Inr samples \<Rightarrow> Inr \<lparr>im_size = im_size img, im_data = samples\<rparr>)"

section \<open>Console, formatting and the messages of the script\<close>

text \<open>
  The two output streams of the process.  The script passes no \<open>file=\<close> argument to
  \<open>print\<close> anywhere, so nothing in it writes to \<open>sys.stderr\<close>.
\<close>

record console =
  stdout :: ustring
  stderr :: ustring

text \<open>
  A statement that can raise, followed by the statements after it: they run on its
  result and the console it leaves, unless it raised.
\<close>

definition and_then ::
  "(py_exception + 'r) \<times> console \<Rightarrow> ('r \<Rightarrow> console \<Rightarrow> (py_exception + 's) \<times> console)
     \<Rightarrow> (py_exception + 's) \<times> console" where
  "and_then first rest =
     (case first of
        (Inl e, c) \<Rightarrow> (Inl e, c)
      | (Inr r, c) \<Rightarrow> rest r c)"

text \<open>
  \<open>sys.stdout.write(s)\<close>: the text is encoded as a whole, so either all of it is
  written or \<open>UnicodeEncodeError\<close> is raised and nothing is.
\<close>

definition encodable :: "'a library \<Rightarrow> ustring \<Rightarrow> bool" where
  "encodable lib s = list_all (stdout_encodes lib) s"

definition write_stdout ::
  "'a library \<Rightarrow> ustring \<Rightarrow> console \<Rightarrow> (py_exception + unit) \<times> console" where
  "write_stdout lib s c =
     (if encodable lib s then (Inr (), c\<lparr>stdout := stdout c @ s\<rparr>)
      else (Inl (UnicodeEncodeError (encode_error lib s)), c))"

text \<open>\<open>print(s)\<close> writes \<open>s\<close> and then the newline to \<open>sys.stdout\<close>.\<close>

definition py_print ::
  "'a library \<Rightarrow> ustring \<Rightarrow> console \<Rightarrow> (py_exception + unit) \<times> console" where
  "py_print lib s c = and_then (write_stdout lib s c) (\<lambda>u c1. write_stdout lib [10] c1)"

text \<open>
  How a call ends: it returns, \<open>sys.exit(code)\<close> raises \<open>SystemExit\<close>, or an exception
  that no handler catches leaves it.
\<close>

datatype outcome = Returned | SystemExit int | Uncaught py_exception

text \<open>
  The exit status of the process when \<open>main()\<close> ends with the given outcome; the
  interpreter exits with 1 after an uncaught exception.
\<close>

fun exit_status :: "outcome \<Rightarrow> int" where
  "exit_status Returned = 0"
| "exit_status (SystemExit code) = code"
| "exit_status (Uncaught e) = 1"

text \<open>\<open>f"{n}"\<close> for a non-negative integer: its decimal digits.\<close>

fun str_nat :: "nat \<Rightarrow> ustring" where
  "str_nat n = (if n < 10 then [48 + n] else str_nat (n div 10) @ [48 + n mod 10])"

text \<open>\<open>f"{img.size}"\<close>: the tuple \<open>(width, height)\<close>.\<close>

definition str_size :: "nat \<times> nat \<Rightarrow> ustring" where
  "str_size sz = ascii ''('' @ str_nat (fst sz) @ ascii '', '' @ str_nat (snd sz) @ ascii '')''"

text \<open>
  \<open>f"{b:02X}"\<close>: upper-case hexadecimal digits, padded with zeros after the sign to a
  width of two characters.
\<close>

definition hex_digit :: "nat \<Rightarrow> nat" where
  "hex_digit d = (if d < 10 then 48 + d else 55 + d)"

fun hex_nat :: "nat \<Rightarrow> ustring" where
  "hex_nat n = (if n < 16 then [hex_digit n] else hex_nat (n div 16) @ [hex_digit (n mod 16)])"

definition format_02X :: "int \<Rightarrow> ustring" where
  "format_02X b =
     (let sign = (if b < 0 then ascii ''-'' else []);
          digits = hex_nat (nat \<bar>b\<bar>)
      in sign @ replicate (2 - (length sign + length digits)) 48 @ digits)"

text \<open>\<open>sep.join(strings)\<close>.\<close>

fun join :: "ustring \<Rightarrow> ustring list \<Rightarrow> ustring" where
  "join sep [] = []"
| "join sep [s] = s"
| "join sep (s # t # rest) = s @ sep @ join sep (t # rest)"

text \<open>\<open>os.path.basename(p)\<close>: what follows the last \<open>/\<close> (code point 47).\<close>

definition basename :: "ustring \<Rightarrow> ustring" where
  "basename p = rev (takeWhile (\<lambda>c. c \<noteq> 47) (rev p))"

text \<open>\<open>s.endswith(suffix)\<close>.\<close>

definition endswith :: "ustring \<Rightarrow> ustring \<Rightarrow> bool" where
  "endswith s suffix =
     (length suffix \<le> length s \<and> drop (length s - length suffix) s = suffix)"

text \<open>
  The Cyrillic literals of the script, as code points.  Line 22: the warning that the
  size \<open>{img.size}\<close> of the image is not 128x64.
\<close>

definition msg_size_mismatch :: "nat \<times> nat \<Rightarrow> ustring" where
  "msg_size_mismatch sz =
     [1055, 1088, 1077, 1076, 1091, 1087, 1088, 1077, 1078, 1076, 1077, 1085, 1080, 1077, 58, 32,
      1056, 1072, 1079, 1084, 1077, 1088, 32,
      1080, 1079, 1086, 1073, 1088, 1072, 1078, 1077, 1085, 1080, 1103, 32]
     @ str_size sz
     @ [32, 1085, 1077, 32,
        1089, 1086, 1086, 1090, 1074, 1077, 1090, 1089, 1090, 1074, 1091, 1077, 1090, 32]
     @ ascii ''128x64.''"

text \<open>Line 23 (the image will be rescaled to 128x64).\<close>

definition msg_will_rescale :: ustring where
  "msg_will_rescale =
     [1048, 1079, 1086, 1073, 1088, 1072, 1078, 1077, 1085, 1080, 1077, 32,
      1073, 1091, 1076, 1077, 1090, 32,
      1084, 1072, 1089, 1096, 1090, 1072, 1073, 1080, 1088, 1086, 1074, 1072, 1085, 1086, 32,
      1076, 1086, 32]
     @ ascii ''128x64''"

text \<open>Lines 59 to 61: the three comment lines that open \<open>c_code\<close>.\<close>

definition comment_source :: ustring where
  "comment_source =
     ascii ''// ''
     @ [1040, 1074, 1090, 1086, 1084, 1072, 1090, 1080, 1095, 1077, 1089, 1082, 1080, 32,
        1089, 1075, 1077, 1085, 1077, 1088, 1080, 1088, 1086, 1074, 1072, 1085, 1085, 1099, 1081, 32,
        1092, 1072, 1081, 1083, 32, 1080, 1079, 32]"

definition comment_dimensions :: ustring where
  "comment_dimensions =
     ascii ''// ''
     @ [1056, 1072, 1079, 1084, 1077, 1088, 32,
        1080, 1079, 1086, 1073, 1088, 1072, 1078, 1077, 1085, 1080, 1103, 58, 32]"

definition word_pixels :: ustring where
  "word_pixels = [32, 1087, 1080, 1082, 1089, 1077, 1083, 1077, 1081]"

definition comment_data_size :: ustring where
  "comment_data_size =
     ascii ''// ''
     @ [1056, 1072, 1079, 1084, 1077, 1088, 32, 1076, 1072, 1085, 1085, 1099, 1093, 58, 32]"

definition word_bytes :: ustring where
  "word_bytes = [32, 1073, 1072, 1081, 1090]"

text \<open>Lines 82 to 85 and 88: the report after the code.\<close>

definition msg_success :: ustring where
  "msg_success =
     [10, 1059, 1089, 1087, 1077, 1096, 1085, 1086, 32,
      1082, 1086, 1085, 1074, 1077, 1088, 1090, 1080, 1088, 1086, 1074, 1072, 1085, 1086, 33]"

definition msg_input_file :: ustring where
  "msg_input_file = [1042, 1093, 1086, 1076, 1085, 1086, 1081, 32, 1092, 1072, 1081, 1083, 58, 32]"

definition msg_array_name :: ustring where
  "msg_array_name = [1048, 1084, 1103, 32, 1084, 1072, 1089, 1089, 1080, 1074, 1072, 58, 32]"

definition msg_array_size :: ustring where
  "msg_array_size =
     [1056, 1072, 1079, 1084, 1077, 1088, 32, 1084, 1072, 1089, 1089, 1080, 1074, 1072, 58, 32]"

definition msg_preview :: ustring where
  "msg_preview =
     [10, 1055, 1088, 1077, 1076, 1087, 1088, 1086, 1089, 1084, 1086, 1090, 1088, 32,
      1080, 1079, 1086, 1073, 1088, 1072, 1078, 1077, 1085, 1080, 1103, 58]"

text \<open>Line 94: the full block U+2588 for a lit pixel, a space otherwise.\<close>

definition full_block :: nat where
  "full_block = 9608"

text \<open>Line 99: the prefix of the error report, the word for error and \<open>": "\<close>.\<close>

definition msg_error :: ustring where
  "msg_error = [1054, 1096, 1080, 1073, 1082, 1072, 58, 32]"

text \<open>Line 119: the error report for a file that is not found.\<close>

definition msg_not_found :: "ustring \<Rightarrow> ustring" where
  "msg_not_found path =
     [1054, 1096, 1080, 1073, 1082, 1072, 58, 32, 1060, 1072, 1081, 1083, 32, 39]
     @ path
     @ [39, 32, 1085, 1077, 32, 1085, 1072, 1081, 1076, 1077, 1085]"

text \<open>Line 124: the recommendation to use BMP files.\<close>

definition msg_recommend_bmp :: ustring where
  "msg_recommend_bmp =
     [1055, 1088, 1077, 1076, 1091, 1087, 1088, 1077, 1078, 1076, 1077, 1085, 1080, 1077, 58, 32,
      1056, 1077, 1082, 1086, 1084, 1077, 1085, 1076, 1091, 1077, 1090, 1089, 1103, 32,
      1080, 1089, 1087, 1086, 1083, 1100, 1079, 1086, 1074, 1072, 1090, 1100, 32]
     @ ascii ''BMP''
     @ [32, 1092, 1072, 1081, 1083, 1099]"

text \<open>\<open>str(e)\<close> in the handler of line 98.\<close>

fun str_exception :: "py_exception \<Rightarrow> ustring" where
  "str_exception (LibraryError message) = message"
| "str_exception IndexError = ascii ''image index out of range''"
| "str_exception ValueError = ascii ''byte must be in range(0, 256)''"
| "str_exception (UnicodeEncodeError message) = message"

section \<open>The C source literal (lines 58 to 78)\<close>

definition bytes_per_line :: nat where
  "bytes_per_line = 16"

text \<open>Lines 59 to 66: the head of \<open>c_code\<close>.\<close>

definition c_code_head :: "ustring \<Rightarrow> ustring \<Rightarrow> nat \<Rightarrow> nat \<Rightarrow> nat \<Rightarrow> ustring" where
  "c_code_head input_file array_name width height byte_count =
     comment_source @ basename input_file @ [10]
     @ comment_dimensions @ str_nat width @ ascii ''x'' @ str_nat height @ word_pixels @ [10]
     @ comment_data_size @ str_nat byte_count @ word_bytes @ [10]
     @ [10]
     @ ascii ''#include <stdint.h>'' @ [10]
     @ [10]
     @ ascii ''const uint8_t '' @ array_name @ ascii ''[] = {'' @ [10]"

text \<open>
  Lines 70 to 76: \<open>for i in range(0, len(byte_array), bytes_per_line)\<close>, with the
  loop variable \<open>i\<close> and the text \<open>c_code\<close> built so far.
\<close>

function hex_lines :: "int list \<Rightarrow> nat \<Rightarrow> ustring \<Rightarrow> ustring" where
  "hex_lines byte_array i c_code =
     (if i < length byte_array then
        (let line_bytes = take bytes_per_line (drop i byte_array);
             hex_values = join (ascii '', '') (map (\<lambda>b. ascii ''0x'' @ format_02X b) line_bytes);
             c_code1 = c_code @ ascii ''    '' @ hex_values;
             c_code2 = (if i + bytes_per_line < length byte_array
                        then c_code1 @ ascii '','' else c_code1);
             c_code3 = c_code2 @ [10]
         in hex_lines byte_array (i + bytes_per_line) c_code3)
      else c_code)"
  by pat_completeness auto
termination
  by (relation "measure (\<lambda>(byte_array, i, c_code). length byte_array - i)")
     (auto simp: bytes_per_line_def)

text \<open>
  What the round of that loop with loop variable \<open>i\<close> appends to \<open>c_code\<close> (lines 71
  to 76; lemma \<open>hex_lines_step\<close>).
\<close>

definition hex_line :: "int list \<Rightarrow> nat \<Rightarrow> ustring" where
  "hex_line byte_array i =
     ascii ''    ''
     @ join (ascii '', '')
         (map (\<lambda>b. ascii ''0x'' @ format_02X b) (take bytes_per_line (drop i byte_array)))
     @ (if i + bytes_per_line < length byte_array then ascii '','' else [])
     @ [10]"

text \<open>Lines 59 to 78: the whole of \<open>c_code\<close>.\<close>

definition c_code_of :: "ustring \<Rightarrow> ustring \<Rightarrow> nat \<Rightarrow> nat \<Rightarrow> int list \<Rightarrow> ustring" where
  "c_code_of input_file array_name width height byte_array =
     hex_lines byte_array 0
       (c_code_head input_file array_name width height (length byte_array))
     @ ascii ''};'' @ [10, 10]"

section \<open>The text preview (lines 87 to 96)\<close>

text \<open>Lines 93 and 94: the body of \<open>for x in range(width)\<close>, on \<open>line\<close>.\<close>

definition preview_cell ::
  "(nat \<Rightarrow> nat \<Rightarrow> py_exception + int) \<Rightarrow> nat \<Rightarrow> nat \<Rightarrow> ustring \<Rightarrow> py_exception + ustring" where
  "preview_cell pixels y x line =
     (case pixels x y of
        Inl e \<Rightarrow> Inl e
      | Inr pixel \<Rightarrow> Inr (line @ [if pixel = 0 then full_block else 32]))"

text \<open>
  A loop whose body prints: the console is kept when the body raises, since what was
  printed before stays printed.
\<close>

fun for_each_io ::
  "nat list \<Rightarrow> (nat \<Rightarrow> console \<Rightarrow> (py_exception + unit) \<times> console) \<Rightarrow> console
     \<Rightarrow> (py_exception + unit) \<times> console" where
  "for_each_io [] body c = (Inr (), c)"
| "for_each_io (i # rest) body c =
     (case body i c of
        (Inl e, c') \<Rightarrow> (Inl e, c')
      | (Inr u, c') \<Rightarrow> for_each_io rest body c')"

text \<open>Lines 91 to 95: the body of \<open>for y in range(height)\<close>.\<close>

definition preview_row ::
  "'a library \<Rightarrow> (nat \<Rightarrow> nat \<Rightarrow> py_exception + int) \<Rightarrow> nat \<Rightarrow> nat \<Rightarrow> console
     \<Rightarrow> (py_exception + unit) \<times> console" where
  "preview_row lib pixels width y c =
     (case for_each [0..<width] (preview_cell pixels y) [] of
        Inl e \<Rightarrow> (Inl e, c)
      | Inr line \<Rightarrow> py_print lib line c)"

text \<open>Lines 88 to 96.\<close>

definition preview ::
  "'a library \<Rightarrow> (nat \<Rightarrow> nat \<Rightarrow> py_exception + int) \<Rightarrow> nat \<Rightarrow> nat \<Rightarrow> console
     \<Rightarrow> (py_exception + unit) \<times> console" where
  "preview lib pixels width height c =
     and_then (py_print lib msg_preview c) (\<lambda>u c1.
     and_then (py_print lib (replicate 33 45) c1) (\<lambda>u c2.
     and_then (for_each_io [0..<height] (preview_row lib pixels width) c2) (\<lambda>u c3.
     py_print lib (replicate 33 45) c3)))"

section \<open>\<open>convert_bmp_to_ssd1306_array\<close> and \<open>main\<close>\<close>

text \<open>
  Lines 20 to 30: the size check with its warning and rescaling, the 1-bit conversion and
  \<open>img.load()\<close>.  The pixel access object that \<open>load\<close> returns is \<open>load img\<close>.
\<close>

definition prepare ::
  "'a library \<Rightarrow> 'a image \<Rightarrow> console \<Rightarrow> (py_exception + int image) \<times> console" where
  "prepare lib opened c =
     and_then
       (if im_size opened \<noteq> (128, 64) then
          and_then (py_print lib (msg_size_mismatch (im_size opened)) c) (\<lambda>u c1.
          and_then (py_print lib msg_will_rescale c1) (\<lambda>u c2.
          (resize lib opened (128, 64), c2)))
        else (Inr opened, c))
       (\<lambda>img1 c3.
          and_then (convert lib img1, c3) (\<lambda>img c4.
          (case Image_load lib img of
             Some e \<Rightarrow> (Inl e, c4)
           | None \<Rightarrow> (Inr img, c4))))"

text \<open>Lines 58 to 96: the code, the report and the preview, for the packed bytes.\<close>

definition emit ::
  "'a library \<Rightarrow> ustring \<Rightarrow> ustring \<Rightarrow> int image \<Rightarrow> int list \<Rightarrow> console
     \<Rightarrow> (py_exception + unit) \<times> console" where
  "emit lib input_file array_name img byte_array c =
     (let pixels = load img;
          width = fst (im_size img);
          height = snd (im_size img);
          c_code = c_code_of input_file array_name width height byte_array
      in and_then (py_print lib c_code c) (\<lambda>u c1.
         and_then (py_print lib msg_success c1) (\<lambda>u c2.
         and_then (py_print lib (msg_input_file @ input_file) c2) (\<lambda>u c3.
         and_then (py_print lib (msg_array_name @ array_name) c3) (\<lambda>u c4.
         and_then (py_print lib (msg_array_size @ str_nat (length byte_array) @ word_bytes) c4)
           (\<lambda>u c5.
         preview lib pixels width height c5))))))"

text \<open>
  Lines 17 to 96: the body of the \<open>try\<close> statement.  Whatever raises in it (the
  library, the packing loops, a \<open>print\<close>) ends it with the console as it then is.
\<close>

definition try_body ::
  "'a library \<Rightarrow> ustring \<Rightarrow> ustring \<Rightarrow> console \<Rightarrow> (py_exception + unit) \<times> console" where
  "try_body lib input_file array_name c =
     and_then (Image_open lib input_file, c) (\<lambda>opened c0.
     and_then (prepare lib opened c0) (\<lambda>img c1.
     and_then (pack_image img, c1) (\<lambda>byte_array c2.
     emit lib input_file array_name img byte_array c2)))"

text \<open>
  Lines 12 to 100: \<open>except Exception as e\<close> prints the error and exits with 1.  The
  \<open>print\<close> of the handler can raise as well, and nothing catches that.
\<close>

definition convert_bmp_to_ssd1306_array ::
  "'a library \<Rightarrow> ustring \<Rightarrow> ustring \<Rightarrow> console \<Rightarrow> outcome \<times> console" where
  "convert_bmp_to_ssd1306_array lib input_file array_name c =
     (case try_body lib input_file array_name c of
        (Inl e, c1) \<Rightarrow>
          (case py_print lib (msg_error @ str_exception e) c1 of
             (Inl e', c2) \<Rightarrow> (Uncaught e', c2)
           | (Inr u, c2) \<Rightarrow> (SystemExit 1, c2))
      | (Inr u, c1) \<Rightarrow> (Returned, c1))"

text \<open>
  Lines 117 to 127 of \<open>main\<close>, from the value \<open>args.input\<close> that the argument parser
  returns.  No statement of \<open>main\<close> is inside a \<open>try\<close>.
\<close>

definition main :: "'a library \<Rightarrow> ustring \<Rightarrow> console \<Rightarrow> outcome \<times> console" where
  "main lib args_input c =
     (if \<not> os_path_exists lib args_input then
        (case py_print lib (msg_not_found args_input) c of
           (Inl e, c1) \<Rightarrow> (Uncaught e, c1)
         | (Inr u, c1) \<Rightarrow> (SystemExit 1, c1))
      else
        (case (if \<not> endswith (str_lower lib args_input) (ascii ''.bmp'')
               then py_print lib msg_recommend_bmp c else (Inr (), c)) of
           (Inl e, c1) \<Rightarrow> (Uncaught e, c1)
         | (Inr u, c1) \<Rightarrow>
             convert_bmp_to_ssd1306_array lib args_input (ascii ''image_data'') c1))"

text \<open>
  Lines 129 and 130, the program: the exit status and the console when it ends.  After an
  uncaught exception the interpreter writes the traceback to \<open>sys.stderr\<close>.
\<close>

definition script :: "'a library \<Rightarrow> ustring \<Rightarrow> console \<Rightarrow> int \<times> console" where
  "script lib args_input c =
     (case main lib args_input c of
        (Returned, c1) \<Rightarrow> (exit_status Returned, c1)
      | (SystemExit code, c1) \<Rightarrow> (exit_status (SystemExit code), c1)
      | (Uncaught e, c1) \<Rightarrow>
          (exit_status (Uncaught e), c1\<lparr>stderr := stderr c1 @ traceback lib e\<rparr>))"

section \<open>The literal as the specification describes it\<close>

text \<open>
  The specification's description of the array literal, written without the functions
  of the code, to be compared with \<open>hex_lines\<close>.  The bytes are taken in chunks of 16,
  one chunk per line.  A value is \<open>0x\<close> and the two hexadecimal digits of the byte, in
  upper case; the values of a line are separated by a comma and a space; a line is the
  indent of four spaces, its values, a comma unless the line is the last one, and a
  newline.
\<close>

definition spec_hex_chars :: ustring where
  "spec_hex_chars = ascii ''0123456789ABCDEF''"

definition spec_value :: "int \<Rightarrow> ustring" where
  "spec_value b =
     ascii ''0x'' @ [spec_hex_chars ! (nat b div 16), spec_hex_chars ! (nat b mod 16)]"

fun spec_comma_separated :: "ustring list \<Rightarrow> ustring" where
  "spec_comma_separated [] = []"
| "spec_comma_separated (v # vs) = v @ concat (map (\<lambda>w. ascii '', '' @ w) vs)"

definition spec_line_count :: "int list \<Rightarrow> nat" where
  "spec_line_count bs = (length bs + 15) div 16"

definition spec_chunk :: "int list \<Rightarrow> nat \<Rightarrow> int list" where
  "spec_chunk bs k = take 16 (drop (16 * k) bs)"

definition spec_literal_line :: "int list \<Rightarrow> nat \<Rightarrow> ustring" where
  "spec_literal_line bs k =
     ascii ''    ''
     @ spec_comma_separated (map spec_value (spec_chunk bs k))
     @ (if k + 1 < spec_line_count bs then ascii '','' else [])
     @ [10]"

definition spec_literal :: "int list \<Rightarrow> ustring" where
  "spec_literal bs = concat (map (spec_literal_line bs) [0..<spec_line_count bs])"

text \<open>The values that a bytearray can hold.\<close>

definition is_byte :: "int \<Rightarrow> bool" where
  "is_byte b = (0 \<le> b \<and> b < 256)"

section \<open>Closed forms of the printed text, for the statements\<close>

text \<open>The console after \<open>text\<close> has been written to standard output.\<close>

definition says :: "ustring \<Rightarrow> console \<Rightarrow> console" where
  "says text c = c\<lparr>stdout := stdout c @ text\<rparr>"

text \<open>What lines 88 to 96 print for an image (lemma \<open>preview_prints\<close>).\<close>

definition preview_text :: "int image \<Rightarrow> ustring" where
  "preview_text img =
     msg_preview @ [10]
     @ replicate 33 45 @ [10]
     @ concat (map (\<lambda>y. map (\<lambda>x. if lit img x y then full_block else 32)
                            [0..<fst (im_size img)] @ [10])
                   [0..<snd (im_size img)])
     @ replicate 33 45 @ [10]"

text \<open>What lines 58 to 96 print (lemma \<open>emit_prints\<close>).\<close>

definition report_text :: "ustring \<Rightarrow> ustring \<Rightarrow> int image \<Rightarrow> int list \<Rightarrow> ustring" where
  "report_text input_file array_name img byte_array =
     c_code_of input_file array_name (fst (im_size img)) (snd (im_size img)) byte_array @ [10]
     @ msg_success @ [10]
     @ msg_input_file @ input_file @ [10]
     @ msg_array_name @ array_name @ [10]
     @ msg_array_size @ str_nat (length byte_array) @ word_bytes @ [10]
     @ preview_text img"

text \<open>
  What the library calls of lines 24, 27 and 30 give for an opened image of a size other
  than 128x64: the exception of the first call that raises, or the rescaled and converted
  image (lemma \<open>prepare_rescales\<close>).
\<close>

definition rescaled_image :: "'a library \<Rightarrow> 'a image \<Rightarrow> py_exception + int image" where
  "rescaled_image lib opened =
     (case resize lib opened (128, 64) of
        Inl e \<Rightarrow> Inl e
      | Inr resized \<Rightarrow>
          (case convert lib resized of
             Inl e \<Rightarrow> Inl e
           | Inr img \<Rightarrow>
               (case Image_load lib img of
                  Some e \<Rightarrow> Inl e
                | None \<Rightarrow> Inr img)))"

text \<open>What lines 22 and 23 print for an image of a size other than 128x64.\<close>

definition warning_text :: "nat \<times> nat \<Rightarrow> ustring" where
  "warning_text sz = msg_size_mismatch sz @ [10] @ msg_will_rescale @ [10]"

section \<open>The inverse of the packing step, as the specification describes it\<close>

text \<open>
  The lit state of pixel \<open>(x, y)\<close> is bit \<open>y mod 8\<close> of the byte at index
  \<open>(y div 8) * width + x\<close>.
\<close>

definition unpack_lit :: "int list \<Rightarrow> nat \<Rightarrow> nat \<Rightarrow> nat \<Rightarrow> bool" where
  "unpack_lit bs width x y = bit (bs ! ((y div 8) * width + x)) (y mod 8)"

definition unpack_grid :: "int list \<Rightarrow> nat \<Rightarrow> nat \<Rightarrow> bool list list" where
  "unpack_grid bs width height =
     map (\<lambda>y. map (\<lambda>x. unpack_lit bs width x y) [0..<width]) [0..<height]"

text \<open>The lit/unlit pattern of an image, row by row.\<close>

definition lit_grid :: "int image \<Rightarrow> bool list list" where
  "lit_grid img =
     map (\<lambda>y. map (\<lambda>x. lit img x y) [0..<fst (im_size img)]) [0..<snd (im_size img)]"

section \<open>Concrete inputs\<close>

definition console0 :: console where
  "console0 = \<lparr>stdout = [], stderr = []\<rparr>"

definition dark_grid :: "int image" where
  "dark_grid = \<lparr>im_size = (128, 64), im_data = (\<lambda>x y. 0)\<rparr>"

definition light_grid :: "int image" where
  "light_grid = \<lparr>im_size = (128, 64), im_data = (\<lambda>x y. 255)\<rparr>"

definition checker_grid :: "int image" where
  "checker_grid = \<lparr>im_size = (128, 64), im_data = (\<lambda>x y. if even (x + y) then 0 else 255)\<rparr>"

definition column_grid :: "int image" where
  "column_grid =
     \<lparr>im_size = (128, 64), im_data = (\<lambda>x y. if x = 0 \<and> even y then 0 else 255)\<rparr>"

text \<open>A dark picture of 100x50 pixels, in 8-bit grey samples.\<close>

definition dark_100x50 :: "int image" where
  "dark_100x50 = \<lparr>im_size = (100, 50), im_data = (\<lambda>x y. 0)\<rparr>"

text \<open>
  An instance of the library and the file system: one file, \<open>logo.bmp\<close>, holding that
  picture; resampling by the nearest sample; 1-bit conversion by the midpoint threshold;
  lower-casing of the ASCII letters.
\<close>

definition nearest :: "int image \<Rightarrow> nat \<times> nat \<Rightarrow> nat \<Rightarrow> nat \<Rightarrow> int" where
  "nearest img sz x y =
     im_data img (x * fst (im_size img) div fst sz) (y * snd (im_size img) div snd sz)"

definition threshold :: "int image \<Rightarrow> nat \<Rightarrow> nat \<Rightarrow> int" where
  "threshold img x y = (if im_data img x y < 128 then 0 else 255)"

definition ascii_lower :: "ustring \<Rightarrow> ustring" where
  "ascii_lower s = map (\<lambda>c. if 65 \<le> c \<and> c \<le> 90 then c + 32 else c) s"

text \<open>
  Here every call of the library returns, and standard output can encode every code
  point.
\<close>

definition lib_demo :: "int library" where
  "lib_demo =
     \<lparr>Image_open = (\<lambda>p. if p = ascii ''logo.bmp'' then Inr dark_100x50
                          else Inl (LibraryError (ascii ''cannot open''))),
      Image_resize = (\<lambda>img sz. Inr (nearest img sz)),
      Image_convert = (\<lambda>img. Inr (threshold img)),
      Image_load = (\<lambda>img. None),
      os_path_exists = (\<lambda>p. p = ascii ''logo.bmp''),
      str_lower = ascii_lower,
      stdout_encodes = (\<lambda>c. True),
      encode_error = (\<lambda>s. ascii ''codec cannot encode characters''),
      traceback = (\<lambda>e. ascii ''Traceback (most recent call last): '' @ str_exception e)\<rparr>"

text \<open>The same with a file that opens and is found truncated when it is resampled.\<close>

definition lib_truncated :: "int library" where
  "lib_truncated =
     lib_demo\<lparr>Image_resize := (\<lambda>img sz. Inl (LibraryError (ascii ''image file is truncated'')))\<rparr>"

text \<open>The same with a standard output that encodes ASCII only.\<close>

definition lib_ascii :: "int library" where
  "lib_ascii = lib_demo\<lparr>stdout_encodes := (\<lambda>c. c < 128)\<rparr>"

text \<open>Eighteen bytes, for two lines of the literal.\<close>

definition demo_bytes :: "int list" where
  "demo_bytes =
     [0x00, 0x1A, 0x2B, 0x3C, 0x4D, 0x5E, 0x6F, 0x70,
      0x81, 0x92, 0xA3, 0xB4, 0xC5, 0xD6, 0xE7, 0xF8,
      0x09, 0xFF]"

text \<open>The picture of \<open>logo.bmp\<close> after rescaling and conversion by \<open>lib_demo\<close>.\<close>

definition demo_rescaled :: "int image" where
  "demo_rescaled =
     \<lparr>im_size = (128, 64),
      im_data = threshold \<lparr>im_size = (128, 64), im_data = nearest dark_100x50 (128, 64)\<rparr>\<rparr>"

text \<open>The packed bytes of the dark grid.\<close>

definition ff_bytes :: "int list" where
  "ff_bytes = replicate 1024 255"

section \<open>Properties of the packing loops\<close>

lemma for_each_append:
  "for_each (xs @ ys) body s =
     (case for_each xs body s of Inl e \<Rightarrow> Inl e | Inr s' \<Rightarrow> for_each ys body s')"
  by (induction xs arbitrary: s) (auto split: sum.splits)

lemma for_each_Suc:
  "for_each [0..<Suc n] body s =
     (case for_each [0..<n] body s of Inl e \<Rightarrow> Inl e | Inr s' \<Rightarrow> body n s')"
  by (simp add: for_each_append split: sum.splits)

lemma pack_bit_step:
  assumes "x < fst (im_size img)" and "page * 8 + n < snd (im_size img)"
  shows "\<exists>v'. pack_bit (load img) (snd (im_size img)) page x n v = Inr v'
           \<and> (\<forall>b. bit v' b \<longleftrightarrow> bit v b \<or> (b = n \<and> lit img x (page * 8 + n)))"
proof (cases "lit img x (page * 8 + n)")
  case True
  then have "pack_bit (load img) (snd (im_size img)) page x n v = Inr (v OR push_bit n 1)"
    using assms by (simp add: pack_bit_def load_def lit_def)
  then show ?thesis
    using True by (simp add: bit_or_iff bit_exp_iff)
next
  case False
  then have "pack_bit (load img) (snd (im_size img)) page x n v = Inr v"
    using assms by (simp add: pack_bit_def load_def lit_def)
  then show ?thesis
    using False by simp
qed

lemma pack_bit_loop:
  assumes "x < fst (im_size img)" and "page * 8 + n \<le> snd (im_size img)"
  shows "\<exists>v. for_each [0..<n] (pack_bit (load img) (snd (im_size img)) page x) acc = Inr v
           \<and> (\<forall>b. bit v b \<longleftrightarrow> bit acc b \<or> (b < n \<and> lit img x (page * 8 + b)))"
  using assms(2)
proof (induction n)
  case 0
  then show ?case by simp
next
  case (Suc n)
  from Suc.prems have "page * 8 + n \<le> snd (im_size img)" by simp
  from Suc.IH [OF this] obtain v
    where v: "for_each [0..<n] (pack_bit (load img) (snd (im_size img)) page x) acc = Inr v"
      and bits: "\<And>b. bit v b \<longleftrightarrow> bit acc b \<or> (b < n \<and> lit img x (page * 8 + b))"
    by blast
  from Suc.prems have "page * 8 + n < snd (im_size img)" by simp
  from pack_bit_step [OF assms(1) this, of v] obtain v'
    where v': "pack_bit (load img) (snd (im_size img)) page x n v = Inr v'"
      and bits': "\<And>b. bit v' b \<longleftrightarrow> bit v b \<or> (b = n \<and> lit img x (page * 8 + n))"
    by blast
  have "for_each [0..<Suc n] (pack_bit (load img) (snd (im_size img)) page x) acc = Inr v'"
    by (simp only: for_each_Suc v v' sum.case)
  moreover have "\<And>b. bit v' b \<longleftrightarrow> bit acc b \<or> (b < Suc n \<and> lit img x (page * 8 + b))"
    unfolding bits' bits less_Suc_eq by blast
  ultimately show ?case by blast
qed

text \<open>An integer with no bit set from position 8 on is a byte.\<close>

lemma low_bits_byte:
  assumes "\<And>b. bit (v::int) b \<Longrightarrow> b < 8"
  shows "0 \<le> v \<and> v < 256"
proof -
  have "take_bit 8 v = v"
    by (rule bit_eqI) (use assms in \<open>auto simp: bit_take_bit_iff\<close>)
  moreover have "0 \<le> take_bit 8 v"
    by simp
  moreover have "take_bit 8 v < 2 ^ 8"
    by (rule take_bit_int_less_exp)
  ultimately show ?thesis by simp
qed

lemma pack_column_ok:
  assumes "x < fst (im_size img)" and "page < snd (im_size img) div 8"
  shows "\<exists>v. pack_column (load img) (snd (im_size img)) page x byte_array = Inr (byte_array @ [v])
           \<and> (\<forall>b. bit v b \<longleftrightarrow> b < 8 \<and> lit img x (page * 8 + b))"
proof -
  from assms(2) have "page * 8 + 8 \<le> snd (im_size img)" by simp
  from pack_bit_loop [OF assms(1) this, of 0] obtain v
    where v: "for_each [0..<8] (pack_bit (load img) (snd (im_size img)) page x) 0 = Inr v"
      and bits: "\<And>b. bit v b \<longleftrightarrow> b < 8 \<and> lit img x (page * 8 + b)"
    by auto
  from bits have "0 \<le> v \<and> v < 256"
    by (intro low_bits_byte) simp
  then have "pack_column (load img) (snd (im_size img)) page x byte_array = Inr (byte_array @ [v])"
    by (simp add: pack_column_def v bytearray_append_def)
  with bits show ?thesis by blast
qed

lemma pack_column_loop:
  assumes "page < snd (im_size img) div 8" and "n \<le> fst (im_size img)"
  shows "\<exists>bs. for_each [0..<n] (pack_column (load img) (snd (im_size img)) page) byte_array
                 = Inr (byte_array @ bs)
           \<and> length bs = n
           \<and> (\<forall>x<n. \<forall>b. bit (bs ! x) b \<longleftrightarrow> b < 8 \<and> lit img x (page * 8 + b))"
  using assms(2)
proof (induction n)
  case 0
  then show ?case by simp
next
  case (Suc n)
  from Suc.prems have "n \<le> fst (im_size img)" by simp
  from Suc.IH [OF this] obtain bs
    where run: "for_each [0..<n] (pack_column (load img) (snd (im_size img)) page) byte_array
                  = Inr (byte_array @ bs)"
      and len: "length bs = n"
      and bits: "\<And>x b. x < n \<Longrightarrow> bit (bs ! x) b \<longleftrightarrow> b < 8 \<and> lit img x (page * 8 + b)"
    by blast
  from Suc.prems have "n < fst (im_size img)" by simp
  from pack_column_ok [OF this assms(1), of "byte_array @ bs"] obtain v
    where col: "pack_column (load img) (snd (im_size img)) page n (byte_array @ bs)
                  = Inr ((byte_array @ bs) @ [v])"
      and vbits: "\<And>b. bit v b \<longleftrightarrow> b < 8 \<and> lit img n (page * 8 + b)"
    by blast
  have "for_each [0..<Suc n] (pack_column (load img) (snd (im_size img)) page) byte_array
          = Inr (byte_array @ (bs @ [v]))"
    by (simp only: for_each_Suc run col sum.case append_assoc)
  moreover have "length (bs @ [v]) = Suc n"
    using len by simp
  moreover have "bit ((bs @ [v]) ! x) b \<longleftrightarrow> b < 8 \<and> lit img x (page * 8 + b)"
    if "x < Suc n" for x b
  proof (cases "x < n")
    case True
    then show ?thesis using bits [OF True] len by (simp add: nth_append)
  next
    case False
    with that have "x = n" by simp
    then show ?thesis using vbits len by (simp add: nth_append)
  qed
  ultimately show ?case by blast
qed

lemma pack_page_loop:
  assumes "n \<le> snd (im_size img) div 8"
  shows "\<exists>bs. for_each [0..<n] (pack_page (load img) (fst (im_size img)) (snd (im_size img))) byte_array
                 = Inr (byte_array @ bs)
           \<and> length bs = n * fst (im_size img)
           \<and> (\<forall>p<n. \<forall>x < fst (im_size img). \<forall>b.
                 bit (bs ! (p * fst (im_size img) + x)) b \<longleftrightarrow> b < 8 \<and> lit img x (p * 8 + b))"
  using assms
proof (induction n)
  case 0
  then show ?case by simp
next
  case (Suc n)
  define w where "w = fst (im_size img)"
  from Suc.prems have "n \<le> snd (im_size img) div 8" by simp
  from Suc.IH [OF this] obtain bs
    where run: "for_each [0..<n] (pack_page (load img) w (snd (im_size img))) byte_array
                  = Inr (byte_array @ bs)"
      and len: "length bs = n * w"
      and bits: "\<And>p x b. p < n \<Longrightarrow> x < w \<Longrightarrow>
                   bit (bs ! (p * w + x)) b \<longleftrightarrow> b < 8 \<and> lit img x (p * 8 + b)"
    unfolding w_def by blast
  from Suc.prems have "n < snd (im_size img) div 8" by simp
  from pack_column_loop [OF this order_refl, of "byte_array @ bs"] obtain cs
    where page: "pack_page (load img) w (snd (im_size img)) n (byte_array @ bs)
                   = Inr ((byte_array @ bs) @ cs)"
      and clen: "length cs = w"
      and cbits: "\<And>x b. x < w \<Longrightarrow> bit (cs ! x) b \<longleftrightarrow> b < 8 \<and> lit img x (n * 8 + b)"
    unfolding w_def pack_page_def by blast
  have "for_each [0..<Suc n] (pack_page (load img) w (snd (im_size img))) byte_array
          = Inr (byte_array @ (bs @ cs))"
    by (simp only: for_each_Suc run page sum.case append_assoc)
  moreover have "length (bs @ cs) = Suc n * w"
    using len clen by simp
  moreover have "bit ((bs @ cs) ! (p * w + x)) b \<longleftrightarrow> b < 8 \<and> lit img x (p * 8 + b)"
    if "p < Suc n" and "x < w" for p x b
  proof (cases "p < n")
    case True
    then have "Suc p * w \<le> n * w" by (intro mult_le_mono1) simp
    with that(2) have "p * w + x < length bs" using len by simp
    then show ?thesis using bits [OF True that(2)] by (simp add: nth_append)
  next
    case False
    with that have "p = n" by simp
    then show ?thesis using cbits [OF that(2)] len by (simp add: nth_append)
  qed
  ultimately show ?case unfolding w_def by blast
qed

text \<open>
  The packing loops never raise, and the result is the page-major byte sequence:
  the byte of page \<open>p\<close> and column \<open>x\<close> is at index \<open>p * width + x\<close>, and its bit
  \<open>b\<close> is the lit state of the pixel in column \<open>x\<close>, row \<open>p * 8 + b\<close>.
\<close>

lemma pack_image_layout:
  "\<exists>bs. pack_image img = Inr bs
     \<and> length bs = (snd (im_size img) div 8) * fst (im_size img)
     \<and> (\<forall>p < snd (im_size img) div 8. \<forall>x < fst (im_size img). \<forall>b.
           bit (bs ! (p * fst (im_size img) + x)) b \<longleftrightarrow> b < 8 \<and> lit img x (p * 8 + b))"
  using pack_page_loop [OF order_refl, of img "[]"]
  by (simp add: pack_image_def Let_def)

section \<open>Properties of the literal\<close>

declare hex_lines.simps [simp del]

declare str_nat.simps [simp del] hex_nat.simps [simp del]

lemma hex_lines_step:
  assumes "i < length bs"
  shows "hex_lines bs i c = hex_lines bs (i + 16) (c @ hex_line bs i)"
proof (cases "i + 16 < length bs")
  case True
  with assms show ?thesis
    by (subst hex_lines.simps) (simp add: hex_line_def bytes_per_line_def Let_def)
next
  case False
  with assms show ?thesis
    by (subst hex_lines.simps) (simp add: hex_line_def bytes_per_line_def Let_def)
qed

lemma hex_lines_done:
  assumes "\<not> i < length bs"
  shows "hex_lines bs i c = c"
  using assms by (subst hex_lines.simps) simp

lemma hex_lines_from:
  "k \<le> spec_line_count bs \<Longrightarrow>
   hex_lines bs (16 * k) c
     = c @ concat (map (\<lambda>j. hex_line bs (16 * j)) [k..<spec_line_count bs])"
proof (induction "spec_line_count bs - k" arbitrary: k c)
  case 0
  then have "\<not> 16 * k < length bs"
    by (simp add: spec_line_count_def)
  with 0 show ?case
    by (simp add: hex_lines_done)
next
  case (Suc d)
  then have lt: "k < spec_line_count bs" and d: "d = spec_line_count bs - Suc k"
    by simp_all
  from lt have i: "16 * k < length bs"
    by (simp add: spec_line_count_def)
  from lt have "Suc k \<le> spec_line_count bs" by simp
  from Suc.hyps(1) [OF d this]
  have "hex_lines bs (16 * Suc k) (c @ hex_line bs (16 * k))
          = (c @ hex_line bs (16 * k))
            @ concat (map (\<lambda>j. hex_line bs (16 * j)) [Suc k..<spec_line_count bs])" .
  moreover have "hex_lines bs (16 * k) c = hex_lines bs (16 * Suc k) (c @ hex_line bs (16 * k))"
  proof -
    have "16 * k + 16 = 16 * Suc k"
      by simp
    with hex_lines_step [OF i, of c] show ?thesis
      by (simp only:)
  qed
  ultimately show ?case
    using lt by (simp add: upt_conv_Cons)
qed

text \<open>The code's separator and digits against the specification's.\<close>

lemma join_spec: "join (ascii '', '') vs = spec_comma_separated vs"
  by (induction "ascii '', ''" vs rule: join.induct) simp_all

lemma hex_digit_spec:
  assumes "d < 16"
  shows "hex_digit d = spec_hex_chars ! d"
proof -
  have "list_all (\<lambda>d. hex_digit d = spec_hex_chars ! d) [0..<16]"
    by code_simp
  with assms show ?thesis
    by (simp add: list_all_iff)
qed

lemma format_02X_byte:
  assumes "0 \<le> b" and "b < 256"
  shows "format_02X b = [hex_digit (nat b div 16), hex_digit (nat b mod 16)]"
proof (cases "nat b < 16")
  case True
  then have "hex_nat (nat b) = [hex_digit (nat b)]"
    by (subst hex_nat.simps) simp
  then show ?thesis
    using assms True by (simp add: format_02X_def hex_digit_def)
next
  case False
  from assms have "nat b div 16 < 16"
    by simp
  then have "hex_nat (nat b div 16) = [hex_digit (nat b div 16)]"
    by (subst hex_nat.simps) simp
  then have "hex_nat (nat b) = [hex_digit (nat b div 16), hex_digit (nat b mod 16)]"
    using False by (subst hex_nat.simps) simp
  then show ?thesis
    using assms by (simp add: format_02X_def)
qed

lemma value_spec:
  assumes "is_byte b"
  shows "ascii ''0x'' @ format_02X b = spec_value b"
proof -
  from assms have range: "0 \<le> b" "b < 256"
    by (simp_all add: is_byte_def)
  then have "nat b div 16 < 16" and "nat b mod 16 < 16"
    by simp_all
  then show ?thesis
    by (simp add: format_02X_byte [OF range] hex_digit_spec spec_value_def)
qed

lemma comma_condition: "16 * k + 16 < length bs \<longleftrightarrow> k + 1 < spec_line_count bs"
  by (simp add: spec_line_count_def) arith

lemma hex_line_spec:
  assumes "list_all is_byte bs"
  shows "hex_line bs (16 * k) = spec_literal_line bs k"
proof -
  have "is_byte b" if "b \<in> set (take 16 (drop (16 * k) bs))" for b
  proof -
    from that have "b \<in> set bs"
      by (meson in_set_dropD in_set_takeD)
    with assms show ?thesis
      by (simp add: list_all_iff)
  qed
  then have "map (\<lambda>b. ascii ''0x'' @ format_02X b) (take 16 (drop (16 * k) bs))
               = map spec_value (take 16 (drop (16 * k) bs))"
    by (intro map_cong refl value_spec)
  then show ?thesis
    by (simp only: hex_line_def spec_literal_line_def spec_chunk_def bytes_per_line_def
          join_spec comma_condition)
qed

lemma hex_lines_spec:
  assumes "list_all is_byte bs"
  shows "hex_lines bs 0 c = c @ spec_literal bs"
proof -
  have "hex_lines bs (16 * 0) c
          = c @ concat (map (\<lambda>j. hex_line bs (16 * j)) [0..<spec_line_count bs])"
    by (rule hex_lines_from) simp
  then show ?thesis
    by (simp add: hex_line_spec [OF assms] spec_literal_def)
qed

lemma chunk_length:
  assumes "k < spec_line_count bs"
  shows "length (spec_chunk bs k)
           = (if k + 1 < spec_line_count bs then 16 else length bs - 16 * k)"
    and "spec_chunk bs k \<noteq> []"
  using assms by (auto simp: spec_line_count_def spec_chunk_def)

section \<open>Properties of the printed text\<close>

lemma and_then_raised: "and_then (Inl e, c) rest = (Inl e, c)"
  by (simp add: and_then_def)

lemma and_then_returned: "and_then (Inr r, c) rest = rest r c"
  by (simp add: and_then_def)

lemma says_says: "says t (says s c) = says (s @ t) c"
  by (simp add: says_def)

lemma says_Nil: "says [] c = c"
  by (simp add: says_def)

lemma encodable_append: "encodable lib (s @ t) \<longleftrightarrow> encodable lib s \<and> encodable lib t"
  by (simp add: encodable_def)

lemma write_stdout_ok:
  assumes "encodable lib s"
  shows "write_stdout lib s c = (Inr (), says s c)"
  using assms by (simp add: write_stdout_def says_def)

lemma py_print_ok:
  assumes "encodable lib s" and "encodable lib [10]"
  shows "py_print lib s c = (Inr (), says (s @ [10]) c)"
  by (simp add: py_print_def write_stdout_ok assms and_then_returned says_says)

lemma py_print_raises:
  assumes "\<not> encodable lib s"
  shows "py_print lib s c = (Inl (UnicodeEncodeError (encode_error lib s)), c)"
  using assms by (simp add: py_print_def write_stdout_def and_then_raised)

lemma for_each_io_append:
  "for_each_io (xs @ ys) body c =
     (case for_each_io xs body c of
        (Inl e, c') \<Rightarrow> (Inl e, c')
      | (Inr u, c') \<Rightarrow> for_each_io ys body c')"
  by (induction xs arbitrary: c) (auto split: sum.splits prod.splits)

lemma preview_cell_loop:
  assumes "y < snd (im_size img)" and "n \<le> fst (im_size img)"
  shows "for_each [0..<n] (preview_cell (load img) y) line
           = Inr (line @ map (\<lambda>x. if lit img x y then full_block else 32) [0..<n])"
  using assms(2)
proof (induction n)
  case 0
  then show ?case by simp
next
  case (Suc n)
  then have "n < fst (im_size img)" by simp
  then have "preview_cell (load img) y n l = Inr (l @ [if lit img n y then full_block else 32])" for l
    using assms(1) by (simp add: preview_cell_def load_def lit_def)
  then show ?case
    using Suc by (simp add: for_each_append)
qed

lemma preview_row_loop:
  assumes "n \<le> snd (im_size img)"
    and "encodable lib (concat (map (\<lambda>y. map (\<lambda>x. if lit img x y then full_block else 32)
                                              [0..<fst (im_size img)] @ [10]) [0..<n]))"
  shows "for_each_io [0..<n] (preview_row lib (load img) (fst (im_size img))) c
           = (Inr (), says (concat (map (\<lambda>y. map (\<lambda>x. if lit img x y then full_block else 32)
                                              [0..<fst (im_size img)] @ [10]) [0..<n])) c)"
  using assms
proof (induction n)
  case 0
  then show ?case by (simp add: says_Nil)
next
  case (Suc n)
  then have lt: "n < snd (im_size img)" by simp
  from Suc.prems(2)
  have before: "encodable lib (concat (map (\<lambda>y. map (\<lambda>x. if lit img x y then full_block else 32)
                                              [0..<fst (im_size img)] @ [10]) [0..<n]))"
    and row: "encodable lib (map (\<lambda>x. if lit img x n then full_block else 32)
                               [0..<fst (im_size img)])"
    and newline: "encodable lib [10]"
    by (simp_all add: encodable_append)
  from preview_cell_loop [OF lt order_refl, of "[]"]
  have "preview_row lib (load img) (fst (im_size img)) n c'
          = (Inr (), says (map (\<lambda>x. if lit img x n then full_block else 32)
                             [0..<fst (im_size img)] @ [10]) c')" for c'
    by (simp add: preview_row_def py_print_ok [OF row newline])
  moreover from lt have "n \<le> snd (im_size img)" by simp
  ultimately show ?case
    using Suc.IH [OF _ before] by (simp add: for_each_io_append says_says)
qed

lemma preview_prints:
  assumes "encodable lib (preview_text img)"
  shows "preview lib (load img) (fst (im_size img)) (snd (im_size img)) c
           = (Inr (), says (preview_text img) c)"
proof -
  from assms
  have title: "encodable lib msg_preview" and newline: "encodable lib [10]"
    and rule: "encodable lib (replicate 33 45)"
    and rows: "encodable lib (concat (map (\<lambda>y. map (\<lambda>x. if lit img x y then full_block else 32)
                                              [0..<fst (im_size img)] @ [10])
                                       [0..<snd (im_size img)]))"
    by (simp_all only: preview_text_def encodable_append)
  show ?thesis
    by (simp only: preview_def py_print_ok [OF title newline] py_print_ok [OF rule newline]
          preview_row_loop [OF order_refl rows] and_then_returned says_says preview_text_def
          append_assoc)
qed

lemma emit_prints:
  assumes "encodable lib (report_text input_file array_name img byte_array)"
  shows "emit lib input_file array_name img byte_array c
           = (Inr (), says (report_text input_file array_name img byte_array) c)"
proof -
  from assms
  have code: "encodable lib (c_code_of input_file array_name (fst (im_size img))
                               (snd (im_size img)) byte_array)"
    and newline: "encodable lib [10]"
    and success: "encodable lib msg_success"
    and path: "encodable lib (msg_input_file @ input_file)"
    and name: "encodable lib (msg_array_name @ array_name)"
    and size: "encodable lib (msg_array_size @ str_nat (length byte_array) @ word_bytes)"
    and rest: "encodable lib (preview_text img)"
    by (simp_all only: report_text_def encodable_append simp_thms)
  show ?thesis
    by (simp only: emit_def Let_def py_print_ok [OF code newline]
          py_print_ok [OF success newline] py_print_ok [OF path newline]
          py_print_ok [OF name newline] py_print_ok [OF size newline]
          preview_prints [OF rest] and_then_returned says_says report_text_def append_assoc)
qed

section \<open>The packing step on the 128x64 grid\<close>

lemma pack_image_128x64:
  assumes "im_size img = (128, 64)"
  obtains bs where "pack_image img = Inr bs" and "length bs = 1024"
    and "\<And>p x b. p < 8 \<Longrightarrow> x < 128 \<Longrightarrow>
           bit (bs ! (p * 128 + x)) b \<longleftrightarrow> b < 8 \<and> lit img x (p * 8 + b)"
proof -
  from pack_image_layout [of img] obtain bs
    where "pack_image img = Inr bs"
      and "length bs = (snd (im_size img) div 8) * fst (im_size img)"
      and "\<forall>p < snd (im_size img) div 8. \<forall>x < fst (im_size img). \<forall>b.
             bit (bs ! (p * fst (im_size img) + x)) b \<longleftrightarrow> b < 8 \<and> lit img x (p * 8 + b)"
    by blast
  with assms that show thesis by simp
qed

lemma index_split:
  assumes "i < (1024::nat)"
  shows "i div 128 < 8 \<and> i mod 128 < 128 \<and> (i div 128) * 128 + i mod 128 = i"
  using assms by simp

lemma pack_image_uniform:
  assumes size: "im_size img = (128, 64)"
    and same: "\<And>x y. x < 128 \<Longrightarrow> y < 64 \<Longrightarrow> lit img x y = on"
  shows "pack_image img = Inr (replicate 1024 (if on then 255 else 0))"
proof -
  from pack_image_128x64 [OF size] obtain bs
    where run: "pack_image img = Inr bs" and len: "length bs = 1024"
      and bits: "\<And>p x b. p < 8 \<Longrightarrow> x < 128 \<Longrightarrow>
                   bit (bs ! (p * 128 + x)) b \<longleftrightarrow> b < 8 \<and> lit img x (p * 8 + b)"
    by blast
  have "bs ! i = (if on then 255 else 0)" if "i < 1024" for i
  proof (rule bit_eqI)
    fix b
    from index_split [OF that]
    have p: "i div 128 < 8" and x: "i mod 128 < 128" and i: "(i div 128) * 128 + i mod 128 = i"
      by simp_all
    have "bit (bs ! i) b \<longleftrightarrow> b < 8 \<and> lit img (i mod 128) ((i div 128) * 8 + b)"
      using bits [OF p x, of b] by (simp only: i)
    also have "\<dots> \<longleftrightarrow> b < 8 \<and> on"
      using same [OF x, of "(i div 128) * 8 + b"] p by auto
    also have "\<dots> \<longleftrightarrow> bit (if on then 255 else 0 :: int) b"
    proof -
      have "bit (255::int) b \<longleftrightarrow> b < 8"
        using bit_mask_iff [of 8 b, where ?'a = int] by (simp add: mask_eq_exp_minus_1)
      then show ?thesis by simp
    qed
    finally show "bit (bs ! i) b \<longleftrightarrow> bit (if on then 255 else 0 :: int) b" .
  qed
  then have "bs = replicate 1024 (if on then 255 else 0)"
    using len by (intro nth_equalityI) simp_all
  with run show ?thesis by simp
qed




lemma row_index:
  assumes "y < (64::nat)"
  shows "y div 8 < 8" and "y div 8 * 8 + y mod 8 = y" and "y mod 8 < 8"
  using assms by simp_all

lemma packed_bit_of_pixel:
  assumes bits: "\<And>p x b. p < 8 \<Longrightarrow> x < 128 \<Longrightarrow>
                   bit ((bs::int list) ! (p * 128 + x)) b \<longleftrightarrow> b < 8 \<and> lit img x (p * 8 + b)"
    and "x < 128" and "y < 64"
  shows "bit (bs ! ((y div 8) * 128 + x)) (y mod 8) \<longleftrightarrow> lit img x y"
proof -
  have "bit (bs ! ((y div 8) * 128 + x)) (y mod 8)
          \<longleftrightarrow> y mod 8 < 8 \<and> lit img x (y div 8 * 8 + y mod 8)"
    by (rule bits [OF row_index(1) assms(2)]) (rule assms(3))
  then show ?thesis
    by (simp only: row_index(2,3) [OF assms(3)] simp_thms)
qed

text \<open>The packing loops give bytes, for an image of any size.\<close>

lemma pack_image_bytes:
  assumes "pack_image img = Inr bs"
  shows "list_all is_byte bs"
proof -
  define w where "w = fst (im_size img)"
  define pages where "pages = snd (im_size img) div 8"
  from pack_image_layout [of img] assms
  have len: "length bs = pages * w"
    and bits: "\<And>p x b. p < pages \<Longrightarrow> x < w \<Longrightarrow>
                 bit (bs ! (p * w + x)) b \<longleftrightarrow> b < 8 \<and> lit img x (p * 8 + b)"
    unfolding w_def pages_def by auto
  have "is_byte (bs ! i)" if "i < length bs" for i
  proof -
    from that len have w: "0 < w"
      by (cases w) simp_all
    from that len w have p: "i div w < pages"
      by (simp add: less_mult_imp_div_less)
    from w have x: "i mod w < w"
      by simp
    have i: "i div w * w + i mod w = i"
      by simp
    have "b < 8" if "bit (bs ! i) b" for b
      using bits [OF p x, of b] that unfolding i by simp
    then have "0 \<le> bs ! i \<and> bs ! i < 256"
      by (rule low_bits_byte)
    then show ?thesis
      by (simp add: is_byte_def)
  qed
  then show ?thesis
    by (simp add: list_all_length)
qed

section \<open>Claims about the packing step\<close>

text \<open>
  C1: for every 128x64 grid the packing step returns 8 * 128 bytes in page-major order:
  the byte of page \<open>p\<close> (0 to 7) and column \<open>x\<close> (0 to 127) is at index
  \<open>p * 128 + x\<close>; it is a byte, and its bit \<open>b\<close> (0 to 7) is set if and only if the
  pixel in column \<open>x\<close>, row \<open>p * 8 + b\<close> is lit.
\<close>

theorem pack_page_column_bit_order:
  assumes "im_size img = (128, 64)"
  shows "\<exists>bs. pack_image img = Inr bs \<and> length bs = 8 * 128
           \<and> (\<forall>p < 8. \<forall>x < 128.
                 0 \<le> bs ! (p * 128 + x) \<and> bs ! (p * 128 + x) < 256
                 \<and> (\<forall>b < 8. bit (bs ! (p * 128 + x)) b \<longleftrightarrow> lit img x (p * 8 + b)))"
proof -
  from pack_image_128x64 [OF assms] obtain bs
    where run: "pack_image img = Inr bs" and len: "length bs = 1024"
      and bits: "\<And>p x b. p < 8 \<Longrightarrow> x < 128 \<Longrightarrow>
                   bit (bs ! (p * 128 + x)) b \<longleftrightarrow> b < 8 \<and> lit img x (p * 8 + b)"
    by blast
  have "0 \<le> bs ! (p * 128 + x) \<and> bs ! (p * 128 + x) < 256
          \<and> (\<forall>b < 8. bit (bs ! (p * 128 + x)) b \<longleftrightarrow> lit img x (p * 8 + b))"
    if "p < 8" and "x < 128" for p x
  proof -
    have "0 \<le> bs ! (p * 128 + x) \<and> bs ! (p * 128 + x) < 256"
      by (rule low_bits_byte) (simp add: bits [OF that])
    then show ?thesis
      by (simp add: bits [OF that])
  qed
  with run len show ?thesis by simp
qed

theorem pack_page_column_bit_order_witness:
  "im_size checker_grid = (128, 64)
   \<and> (\<exists>bs. pack_image checker_grid = Inr bs \<and> length bs = 8 * 128
           \<and> (\<forall>p < 8. \<forall>x < 128.
                 0 \<le> bs ! (p * 128 + x) \<and> bs ! (p * 128 + x) < 256
                 \<and> (\<forall>b < 8. bit (bs ! (p * 128 + x)) b \<longleftrightarrow> lit checker_grid x (p * 8 + b))))"
proof -
  have size: "im_size checker_grid = (128, 64)"
    by (simp add: checker_grid_def)
  from pack_page_column_bit_order [OF size] size show ?thesis by blast
qed

text \<open>
  C2: in a 128x64 grid, the output bit of a pixel is 1 exactly when its 1-bit sample is 0;
  so a dark pixel (sample 0) is lit and a light pixel (sample 255) is unlit.  The packing
  step has no argument besides the image.
\<close>

theorem pack_dark_is_lit:
  assumes "im_size img = (128, 64)" and "x < 128" and "y < 64"
  shows "\<exists>bs. pack_image img = Inr bs
           \<and> (bit (bs ! ((y div 8) * 128 + x)) (y mod 8) \<longleftrightarrow> im_data img x y = 0)
           \<and> (im_data img x y = 0 \<longrightarrow> bit (bs ! ((y div 8) * 128 + x)) (y mod 8))
           \<and> (im_data img x y = 255 \<longrightarrow> \<not> bit (bs ! ((y div 8) * 128 + x)) (y mod 8))"
proof -
  from pack_image_128x64 [OF assms(1)] obtain bs
    where run: "pack_image img = Inr bs" and len: "length bs = 1024"
      and bits: "\<And>p x b. p < 8 \<Longrightarrow> x < 128 \<Longrightarrow>
                   bit (bs ! (p * 128 + x)) b \<longleftrightarrow> b < 8 \<and> lit img x (p * 8 + b)"
    by blast
  have "bit (bs ! ((y div 8) * 128 + x)) (y mod 8) \<longleftrightarrow> im_data img x y = 0"
    using packed_bit_of_pixel [OF bits assms(2,3)] by (simp only: lit_def)
  then have "(bit (bs ! ((y div 8) * 128 + x)) (y mod 8) \<longleftrightarrow> im_data img x y = 0)
           \<and> (im_data img x y = 0 \<longrightarrow> bit (bs ! ((y div 8) * 128 + x)) (y mod 8))
           \<and> (im_data img x y = 255 \<longrightarrow> \<not> bit (bs ! ((y div 8) * 128 + x)) (y mod 8))"
    by simp
  with run show ?thesis by blast
qed

theorem pack_dark_is_lit_witness:
  "im_size checker_grid = (128, 64) \<and> (3::nat) < 128 \<and> (10::nat) < 64
   \<and> (\<exists>bs. pack_image checker_grid = Inr bs
           \<and> (bit (bs ! ((10 div 8) * 128 + 3)) (10 mod 8) \<longleftrightarrow> im_data checker_grid 3 10 = 0)
           \<and> (im_data checker_grid 3 10 = 0 \<longrightarrow> bit (bs ! ((10 div 8) * 128 + 3)) (10 mod 8))
           \<and> (im_data checker_grid 3 10 = 255 \<longrightarrow> \<not> bit (bs ! ((10 div 8) * 128 + 3)) (10 mod 8)))"
proof -
  have size: "im_size checker_grid = (128, 64)"
    by (simp add: checker_grid_def)
  have x: "(3::nat) < 128" and y: "(10::nat) < 64"
    by simp_all
  from pack_dark_is_lit [OF size x y] size x y show ?thesis by blast
qed

text \<open>
  C4: the packing step returns \<open>width * (height div 8)\<close> bytes for an image of any size
  (the page height is the constant 8 of the script), and 1024 bytes for 128x64.
\<close>

theorem pack_length:
  "\<exists>bs. pack_image img = Inr bs
     \<and> length bs = fst (im_size img) * (snd (im_size img) div 8)
     \<and> (im_size img = (128, 64) \<longrightarrow> length bs = 1024)"
proof -
  from pack_image_layout [of img] obtain bs
    where "pack_image img = Inr bs"
      and "length bs = (snd (im_size img) div 8) * fst (im_size img)"
    by blast
  then show ?thesis by auto
qed

theorem pack_length_witness:
  "im_size dark_grid = (128, 64)
   \<and> (\<exists>bs. pack_image dark_grid = Inr bs
          \<and> length bs = fst (im_size dark_grid) * (snd (im_size dark_grid) div 8)
          \<and> length bs = 1024)"
proof -
  have size: "im_size dark_grid = (128, 64)"
    by (simp add: dark_grid_def)
  from pack_length [of dark_grid] size show ?thesis by blast
qed

text \<open>
  C5: a 128x64 grid whose samples are all 0 (dark) packs to exactly 1024 bytes, each
  0xFF.
\<close>

theorem pack_all_dark:
  assumes "im_size img = (128, 64)"
    and "\<forall>x < 128. \<forall>y < 64. im_data img x y = 0"
  shows "pack_image img = Inr (replicate 1024 0xFF)"
  using pack_image_uniform [OF assms(1), of True] assms(2) by (simp add: lit_def)

theorem pack_all_dark_witness:
  "im_size dark_grid = (128, 64)
   \<and> (\<forall>x y. im_data dark_grid x y = 0)
   \<and> pack_image dark_grid = Inr (replicate 1024 0xFF)"
proof -
  have size: "im_size dark_grid = (128, 64)"
    and all_dark: "\<forall>x y. im_data dark_grid x y = 0"
    by (simp_all add: dark_grid_def)
  from all_dark have dark: "\<forall>x < 128. \<forall>y < 64. im_data dark_grid x y = 0"
    by blast
  from pack_all_dark [OF size dark] size all_dark show ?thesis by blast
qed

text \<open>
  C6: a 128x64 grid whose samples are all 255 (light) packs to exactly 1024 bytes, each
  0x00.
\<close>

theorem pack_all_light:
  assumes "im_size img = (128, 64)"
    and "\<forall>x < 128. \<forall>y < 64. im_data img x y = 255"
  shows "pack_image img = Inr (replicate 1024 0x00)"
  using pack_image_uniform [OF assms(1), of False] assms(2) by (simp add: lit_def)

theorem pack_all_light_witness:
  "im_size light_grid = (128, 64)
   \<and> (\<forall>x y. im_data light_grid x y = 255)
   \<and> pack_image light_grid = Inr (replicate 1024 0x00)"
proof -
  have size: "im_size light_grid = (128, 64)"
    and all_light: "\<forall>x y. im_data light_grid x y = 255"
    by (simp_all add: light_grid_def)
  from all_light have light: "\<forall>x < 128. \<forall>y < 64. im_data light_grid x y = 255"
    by blast
  from pack_all_light [OF size light] size all_light show ?thesis by blast
qed

text \<open>
  C7: for every 128x64 grid, unpacking the packed bytes (bit \<open>y mod 8\<close> of the byte at
  index \<open>(y div 8) * 128 + x\<close>) gives back the lit/unlit pattern of the grid.
\<close>

theorem unpack_pack_identity:
  assumes "im_size img = (128, 64)"
  shows "\<exists>bs. pack_image img = Inr bs \<and> unpack_grid bs 128 64 = lit_grid img"
proof -
  from pack_image_128x64 [OF assms] obtain bs
    where run: "pack_image img = Inr bs" and len: "length bs = 1024"
      and bits: "\<And>p x b. p < 8 \<Longrightarrow> x < 128 \<Longrightarrow>
                   bit (bs ! (p * 128 + x)) b \<longleftrightarrow> b < 8 \<and> lit img x (p * 8 + b)"
    by blast
  have "unpack_lit bs 128 x y = lit img x y" if "x < 128" and "y < 64" for x y
    unfolding unpack_lit_def by (rule packed_bit_of_pixel [OF bits that])
  then have "unpack_grid bs 128 64 = lit_grid img"
    unfolding unpack_grid_def lit_grid_def assms fst_conv snd_conv
    by (intro map_cong refl) (simp_all only: set_upt atLeastLessThan_iff)
  with run show ?thesis by blast
qed

theorem unpack_pack_identity_witness:
  "im_size checker_grid = (128, 64)
   \<and> (\<exists>bs. pack_image checker_grid = Inr bs \<and> unpack_grid bs 128 64 = lit_grid checker_grid)"
proof -
  have size: "im_size checker_grid = (128, 64)"
    by (simp add: checker_grid_def)
  from unpack_pack_identity [OF size] size show ?thesis by blast
qed

text \<open>
  C10: two 128x64 grids that agree on the 8 pixels of column \<open>x\<close>, rows \<open>p * 8\<close> to
  \<open>p * 8 + 7\<close>, both pack to 1024 bytes, the index \<open>p * 128 + x\<close> lies within both
  outputs, and the two bytes at that index are equal, whatever the other pixels are.
\<close>

theorem pack_byte_local:
  assumes "im_size img = (128, 64)" and "im_size img' = (128, 64)"
    and "p < 8" and "x < 128"
    and "\<forall>b < 8. im_data img x (p * 8 + b) = im_data img' x (p * 8 + b)"
  shows "\<exists>bs bs'. pack_image img = Inr bs \<and> pack_image img' = Inr bs'
           \<and> length bs = 1024 \<and> length bs' = 1024
           \<and> p * 128 + x < length bs \<and> p * 128 + x < length bs'
           \<and> bs ! (p * 128 + x) = bs' ! (p * 128 + x)"
proof -
  from pack_image_128x64 [OF assms(1)] obtain bs
    where run: "pack_image img = Inr bs" and len: "length bs = 1024"
      and bits: "\<And>p x b. p < 8 \<Longrightarrow> x < 128 \<Longrightarrow>
                   bit (bs ! (p * 128 + x)) b \<longleftrightarrow> b < 8 \<and> lit img x (p * 8 + b)"
    by blast
  from pack_image_128x64 [OF assms(2)] obtain bs'
    where run': "pack_image img' = Inr bs'" and len': "length bs' = 1024"
      and bits': "\<And>p x b. p < 8 \<Longrightarrow> x < 128 \<Longrightarrow>
                   bit (bs' ! (p * 128 + x)) b \<longleftrightarrow> b < 8 \<and> lit img' x (p * 8 + b)"
    by blast
  have "bs ! (p * 128 + x) = bs' ! (p * 128 + x)"
  proof (rule bit_eqI)
    fix b
    have "lit img x (p * 8 + b) = lit img' x (p * 8 + b)" if "b < 8"
      using assms(5) that by (simp add: lit_def)
    then have "(b < 8 \<and> lit img x (p * 8 + b)) \<longleftrightarrow> (b < 8 \<and> lit img' x (p * 8 + b))"
      by blast
    then show "bit (bs ! (p * 128 + x)) b \<longleftrightarrow> bit (bs' ! (p * 128 + x)) b"
      by (simp only: bits [OF assms(3,4)] bits' [OF assms(3,4)])
  qed
  moreover from assms(3,4) have "p * 128 + x < 1024"
    by simp
  ultimately show ?thesis
    using run run' len len' by simp
qed

theorem pack_byte_local_witness:
  "im_size checker_grid = (128, 64) \<and> im_size column_grid = (128, 64)
   \<and> (2::nat) < 8 \<and> (0::nat) < 128
   \<and> (\<forall>b. im_data checker_grid 0 (2 * 8 + b) = im_data column_grid 0 (2 * 8 + b))
   \<and> im_data checker_grid 1 1 \<noteq> im_data column_grid 1 1
   \<and> (\<exists>bs bs'. pack_image checker_grid = Inr bs \<and> pack_image column_grid = Inr bs'
           \<and> length bs = 1024 \<and> length bs' = 1024
           \<and> 2 * 128 + 0 < length bs \<and> 2 * 128 + 0 < length bs'
           \<and> bs ! (2 * 128 + 0) = bs' ! (2 * 128 + 0))"
proof -
  have size: "im_size checker_grid = (128, 64)" and size': "im_size column_grid = (128, 64)"
    by (simp_all add: checker_grid_def column_grid_def)
  have p: "(2::nat) < 8" and x: "(0::nat) < 128"
    by simp_all
  have all_agree: "\<forall>b. im_data checker_grid 0 (2 * 8 + b) = im_data column_grid 0 (2 * 8 + b)"
    by (simp add: checker_grid_def column_grid_def)
  then have agree: "\<forall>b < 8. im_data checker_grid 0 (2 * 8 + b) = im_data column_grid 0 (2 * 8 + b)"
    by blast
  have differ: "im_data checker_grid 1 1 \<noteq> im_data column_grid 1 1"
    by (simp add: checker_grid_def column_grid_def)
  from pack_byte_local [OF size size' p x agree] size size' p x all_agree differ
  show ?thesis by blast
qed

section \<open>Claims about the printed code\<close>

lemma dark_packed: "pack_image dark_grid = Inr ff_bytes"
proof -
  have size: "im_size dark_grid = (128, 64)"
    by (simp add: dark_grid_def)
  have dark: "lit dark_grid x y = True" for x y
    by (simp add: lit_def dark_grid_def)
  from pack_image_uniform [OF size dark] show ?thesis
    by (simp only: if_True ff_bytes_def)
qed

lemma demo_bytes_spec:
  "spec_literal demo_bytes
     = ascii ''    0x00, 0x1A, 0x2B, 0x3C, 0x4D, 0x5E, 0x6F, 0x70, 0x81, 0x92, 0xA3, 0xB4, 0xC5, 0xD6, 0xE7, 0xF8,''
       @ [10]
       @ ascii ''    0x09, 0xFF''
       @ [10]"
  by code_simp

text \<open>
  C8: for every sequence of bytes (the packing loops give one, lemma
  \<open>pack_image_bytes\<close>), the lines that \<open>hex_lines\<close> appends, and so the body of the
  literal in \<open>c_code\<close>, are the text of the specification: the bytes in chunks of 16
  (only the last chunk may be shorter, none is empty), each byte as \<open>0x\<close> and its two
  upper-case hexadecimal digits, the values of a line separated by \<open>", "\<close>, and a comma
  at the end of every line but the last; 1024 bytes give 64 lines.
\<close>

theorem literal_lines:
  assumes "list_all is_byte bs"
  shows "hex_lines bs 0 c = c @ spec_literal bs
         \<and> c_code_of input_file array_name width height bs
             = c_code_head input_file array_name width height (length bs)
               @ spec_literal bs @ ascii ''};'' @ [10, 10]
         \<and> (\<forall>k < spec_line_count bs.
               spec_chunk bs k \<noteq> []
               \<and> length (spec_chunk bs k)
                   = (if k + 1 < spec_line_count bs then 16 else length bs - 16 * k))
         \<and> (length bs = 1024 \<longrightarrow> spec_line_count bs = 64)"
proof -
  have lines: "hex_lines bs 0 c = c @ spec_literal bs" for c
    by (rule hex_lines_spec [OF assms])
  have code: "c_code_of input_file array_name width height bs
                = c_code_head input_file array_name width height (length bs)
                  @ spec_literal bs @ ascii ''};'' @ [10, 10]"
    by (simp only: c_code_of_def lines append_assoc)
  have count: "length bs = 1024 \<longrightarrow> spec_line_count bs = 64"
    by (simp add: spec_line_count_def)
  from lines [of c] code count show ?thesis
    using chunk_length [of _ bs] by blast
qed

theorem literal_lines_witness:
  "list_all is_byte demo_bytes
   \<and> hex_lines demo_bytes 0 []
       = ascii ''    0x00, 0x1A, 0x2B, 0x3C, 0x4D, 0x5E, 0x6F, 0x70, 0x81, 0x92, 0xA3, 0xB4, 0xC5, 0xD6, 0xE7, 0xF8,''
         @ [10]
         @ ascii ''    0x09, 0xFF''
         @ [10]
   \<and> pack_image dark_grid = Inr ff_bytes
   \<and> list_all is_byte ff_bytes
   \<and> length ff_bytes = 1024
   \<and> hex_lines ff_bytes 0 [] = spec_literal ff_bytes
   \<and> spec_line_count ff_bytes = 64"
proof -
  have bytes: "list_all is_byte demo_bytes"
    by (simp add: demo_bytes_def is_byte_def)
  from literal_lines [OF bytes, of "[]"]
  have "hex_lines demo_bytes 0 [] = [] @ spec_literal demo_bytes"
    by (rule conjunct1)
  then have golden: "hex_lines demo_bytes 0 []
       = ascii ''    0x00, 0x1A, 0x2B, 0x3C, 0x4D, 0x5E, 0x6F, 0x70, 0x81, 0x92, 0xA3, 0xB4, 0xC5, 0xD6, 0xE7, 0xF8,''
         @ [10]
         @ ascii ''    0x09, 0xFF''
         @ [10]"
    by (simp only: demo_bytes_spec append_Nil)
  have ff: "list_all is_byte ff_bytes"
    by (rule pack_image_bytes [OF dark_packed])
  have len: "length ff_bytes = 1024"
    by (simp add: ff_bytes_def)
  from literal_lines [OF ff, of "[]"]
  have lines: "hex_lines ff_bytes 0 [] = [] @ spec_literal ff_bytes"
    and count: "length ff_bytes = 1024 \<longrightarrow> spec_line_count ff_bytes = 64"
    by simp_all
  from count len have c64: "spec_line_count ff_bytes = 64"
    by blast
  from lines have lines': "hex_lines ff_bytes 0 [] = spec_literal ff_bytes"
    by (simp only: append_Nil)
  from bytes golden dark_packed ff len lines' c64 show ?thesis
    by (intro conjI)
qed

section \<open>Properties of the whole conversion\<close>

lemma prepare_rescales:
  assumes "im_size opened \<noteq> (128, 64)"
    and "encodable lib (warning_text (im_size opened))"
  shows "prepare lib opened c
           = (rescaled_image lib opened, says (warning_text (im_size opened)) c)"
proof -
  from assms(2)
  have first: "encodable lib (msg_size_mismatch (im_size opened))"
    and newline: "encodable lib [10]"
    and second: "encodable lib msg_will_rescale"
    by (simp_all only: warning_text_def encodable_append)
  have "prepare lib opened c
          = and_then (resize lib opened (128, 64), says (warning_text (im_size opened)) c)
              (\<lambda>img1 c3.
                 and_then (convert lib img1, c3) (\<lambda>img c4.
                 (case Image_load lib img of
                    Some e \<Rightarrow> (Inl e, c4)
                  | None \<Rightarrow> (Inr img, c4))))"
    by (simp add: prepare_def assms(1) py_print_ok [OF first newline]
          py_print_ok [OF second newline] and_then_returned says_says warning_text_def)
  then show ?thesis
    by (simp add: rescaled_image_def and_then_def split: sum.splits option.splits)
qed

lemma rescaled_size:
  assumes "rescaled_image lib opened = Inr img"
  shows "im_size img = (128, 64)"
  using assms
  by (auto simp: rescaled_image_def resize_def convert_def split: sum.splits option.splits)

lemma convert_returns:
  assumes opened: "Image_open lib input_file = Inr opened"
    and prepared: "prepare lib opened c = (Inr img, c1)"
    and packed: "pack_image img = Inr bs"
    and printable: "encodable lib (report_text input_file array_name img bs)"
  shows "convert_bmp_to_ssd1306_array lib input_file array_name c
           = (Returned, says (report_text input_file array_name img bs) c1)"
  by (simp add: convert_bmp_to_ssd1306_array_def try_body_def opened prepared packed
        and_then_returned emit_prints [OF printable])

lemma convert_exits:
  assumes opened: "Image_open lib input_file = Inr opened"
    and prepared: "prepare lib opened c = (Inl e, c1)"
    and printable: "encodable lib (msg_error @ str_exception e @ [10])"
  shows "convert_bmp_to_ssd1306_array lib input_file array_name c
           = (SystemExit 1, says (msg_error @ str_exception e @ [10]) c1)"
proof -
  from printable have message: "encodable lib (msg_error @ str_exception e)"
    and newline: "encodable lib [10]"
    by (simp_all add: encodable_append)
  show ?thesis
    by (simp add: convert_bmp_to_ssd1306_array_def try_body_def opened prepared
          and_then_returned and_then_raised py_print_ok [OF message newline])
qed

lemma convert_rescaled:
  assumes opened: "Image_open lib input_file = Inr opened"
    and size: "im_size opened \<noteq> (128, 64)"
    and warning: "encodable lib (warning_text (im_size opened))"
    and rescaled: "rescaled_image lib opened = Inr img"
  shows "im_size img = (128, 64)
         \<and> (\<exists>bs. pack_image img = Inr bs \<and> length bs = 1024
               \<and> (encodable lib (report_text input_file array_name img bs) \<longrightarrow>
                    convert_bmp_to_ssd1306_array lib input_file array_name c
                      = (Returned,
                         says (warning_text (im_size opened)
                               @ report_text input_file array_name img bs) c)))"
proof -
  have img: "im_size img = (128, 64)"
    by (rule rescaled_size [OF rescaled])
  from pack_image_128x64 [OF img] obtain bs
    where run: "pack_image img = Inr bs" and len: "length bs = 1024"
      and bits: "\<And>p x b. p < 8 \<Longrightarrow> x < 128 \<Longrightarrow>
                   bit (bs ! (p * 128 + x)) b \<longleftrightarrow> b < 8 \<and> lit img x (p * 8 + b)"
    by blast
  have prepared: "prepare lib opened c = (Inr img, says (warning_text (im_size opened)) c)"
    by (simp only: prepare_rescales [OF size warning] rescaled)
  have "convert_bmp_to_ssd1306_array lib input_file array_name c
          = (Returned,
             says (warning_text (im_size opened) @ report_text input_file array_name img bs) c)"
    if "encodable lib (report_text input_file array_name img bs)"
    using convert_returns [OF opened prepared run that] by (simp only: says_says)
  with img run len show ?thesis by blast
qed

lemma convert_rescale_raises:
  assumes opened: "Image_open lib input_file = Inr opened"
    and size: "im_size opened \<noteq> (128, 64)"
    and warning: "encodable lib (warning_text (im_size opened))"
    and raised: "rescaled_image lib opened = Inl e"
    and printable: "encodable lib (msg_error @ str_exception e @ [10])"
  shows "convert_bmp_to_ssd1306_array lib input_file array_name c
           = (SystemExit 1,
              says (warning_text (im_size opened) @ msg_error @ str_exception e @ [10]) c)"
proof -
  have prepared: "prepare lib opened c = (Inl e, says (warning_text (im_size opened)) c)"
    by (simp only: prepare_rescales [OF size warning] raised)
  from convert_exits [OF opened prepared printable] show ?thesis
    by (simp only: says_says)
qed

text \<open>The concrete runs.\<close>

lemma demo_encodable: "encodable lib_demo s"
  by (simp add: encodable_def lib_demo_def list_all_iff)

lemma truncated_encodable: "encodable lib_truncated s"
  by (simp add: encodable_def lib_truncated_def lib_demo_def list_all_iff)

lemma demo_opened: "Image_open lib_demo (ascii ''logo.bmp'') = Inr dark_100x50"
  by (simp add: lib_demo_def)

lemma truncated_opened: "Image_open lib_truncated (ascii ''logo.bmp'') = Inr dark_100x50"
  by (simp add: lib_truncated_def lib_demo_def)

lemma demo_size: "im_size dark_100x50 = (100, 50)"
  by (simp add: dark_100x50_def)

lemma demo_mismatch: "im_size dark_100x50 \<noteq> (128, 64)"
  by (simp add: dark_100x50_def)

lemma demo_rescaled_image: "rescaled_image lib_demo dark_100x50 = Inr demo_rescaled"
  by (simp add: rescaled_image_def resize_def convert_def lib_demo_def demo_rescaled_def)

lemma truncated_rescaled_image:
  "rescaled_image lib_truncated dark_100x50
     = Inl (LibraryError (ascii ''image file is truncated''))"
  by (simp add: rescaled_image_def resize_def lib_truncated_def lib_demo_def)

lemma demo_packed: "pack_image demo_rescaled = Inr ff_bytes"
proof -
  have size: "im_size demo_rescaled = (128, 64)"
    by (simp add: demo_rescaled_def)
  have dark: "lit demo_rescaled x y = True" for x y
    by (simp add: lit_def demo_rescaled_def threshold_def nearest_def dark_100x50_def)
  from pack_image_uniform [OF size dark] show ?thesis
    by (simp only: if_True ff_bytes_def)
qed

lemma demo_run:
  "convert_bmp_to_ssd1306_array lib_demo (ascii ''logo.bmp'') (ascii ''image_data'') console0
     = (Returned,
        says (warning_text (100, 50)
              @ report_text (ascii ''logo.bmp'') (ascii ''image_data'') demo_rescaled ff_bytes)
          console0)"
proof -
  have prepared: "prepare lib_demo dark_100x50 console0
                    = (Inr demo_rescaled, says (warning_text (im_size dark_100x50)) console0)"
    by (simp only: prepare_rescales [OF demo_mismatch demo_encodable] demo_rescaled_image)
  from convert_returns [OF demo_opened prepared demo_packed demo_encodable] show ?thesis
    by (simp only: says_says demo_size)
qed

text \<open>
  C3, as stated, fails: for the 100x50 picture the conversion raises no error for the
  size; it returns after printing the warning and the report for the 1024 bytes packed
  from the rescaled picture.
\<close>

theorem mismatch_is_rescaled_counterexample:
  "im_size dark_100x50 = (100, 50)
   \<and> Image_open lib_demo (ascii ''logo.bmp'') = Inr dark_100x50
   \<and> rescaled_image lib_demo dark_100x50 = Inr demo_rescaled
   \<and> pack_image demo_rescaled = Inr ff_bytes
   \<and> length ff_bytes = 1024
   \<and> convert_bmp_to_ssd1306_array lib_demo (ascii ''logo.bmp'') (ascii ''image_data'') console0
       = (Returned,
          says (warning_text (100, 50)
                @ report_text (ascii ''logo.bmp'') (ascii ''image_data'') demo_rescaled ff_bytes)
            console0)"
proof -
  have "length ff_bytes = 1024"
    by (simp add: ff_bytes_def)
  with demo_size demo_opened demo_rescaled_image demo_packed demo_run show ?thesis
    by (intro conjI)
qed

text \<open>
  C3, amended: for every opened image whose size is not 128x64 the conversion raises no error
  for the size: it prints the two warning lines (standard output being able to encode
  them) and has the library rescale the image to 128x64 and convert it.  When these
  library calls return, the image is 128x64 and is packed into 1024 bytes, and, the
  report being encodable, the conversion prints it after the warning and returns.
  When a library call raises (a truncated file, say), the handler prints the error
  after the warning and exits with status 1.
\<close>

theorem mismatch_is_rescaled:
  assumes "Image_open lib input_file = Inr opened"
    and "im_size opened \<noteq> (128, 64)"
    and "encodable lib (warning_text (im_size opened))"
  shows "(\<forall>img. rescaled_image lib opened = Inr img \<longrightarrow>
            im_size img = (128, 64)
            \<and> (\<exists>bs. pack_image img = Inr bs \<and> length bs = 1024
                  \<and> (encodable lib (report_text input_file array_name img bs) \<longrightarrow>
                       convert_bmp_to_ssd1306_array lib input_file array_name c
                         = (Returned,
                            says (warning_text (im_size opened)
                                  @ report_text input_file array_name img bs) c))))
         \<and> (\<forall>e. rescaled_image lib opened = Inl e
                  \<and> encodable lib (msg_error @ str_exception e @ [10]) \<longrightarrow>
                convert_bmp_to_ssd1306_array lib input_file array_name c
                  = (SystemExit 1,
                     says (warning_text (im_size opened)
                           @ msg_error @ str_exception e @ [10]) c))"
  using convert_rescaled [OF assms] convert_rescale_raises [OF assms] by blast

theorem mismatch_is_rescaled_witness:
  "Image_open lib_demo (ascii ''logo.bmp'') = Inr dark_100x50
   \<and> im_size dark_100x50 \<noteq> (128, 64)
   \<and> encodable lib_demo (warning_text (im_size dark_100x50))
   \<and> rescaled_image lib_demo dark_100x50 = Inr demo_rescaled
   \<and> im_size demo_rescaled = (128, 64)
   \<and> pack_image demo_rescaled = Inr ff_bytes
   \<and> encodable lib_demo
         (report_text (ascii ''logo.bmp'') (ascii ''image_data'') demo_rescaled ff_bytes)
   \<and> convert_bmp_to_ssd1306_array lib_demo (ascii ''logo.bmp'') (ascii ''image_data'') console0
       = (Returned,
          says (warning_text (im_size dark_100x50)
                @ report_text (ascii ''logo.bmp'') (ascii ''image_data'') demo_rescaled ff_bytes)
            console0)
   \<and> Image_open lib_truncated (ascii ''logo.bmp'') = Inr dark_100x50
   \<and> encodable lib_truncated (warning_text (im_size dark_100x50))
   \<and> rescaled_image lib_truncated dark_100x50
       = Inl (LibraryError (ascii ''image file is truncated''))
   \<and> encodable lib_truncated
         (msg_error @ str_exception (LibraryError (ascii ''image file is truncated'')) @ [10])
   \<and> convert_bmp_to_ssd1306_array lib_truncated (ascii ''logo.bmp'') (ascii ''image_data'')
         console0
       = (SystemExit 1,
          says (warning_text (im_size dark_100x50)
                @ msg_error @ str_exception (LibraryError (ascii ''image file is truncated''))
                @ [10])
            console0)"
proof -
  note demo =
    mismatch_is_rescaled [OF demo_opened demo_mismatch demo_encodable,
      of "ascii ''image_data''" console0]
  from demo demo_rescaled_image
  have size: "im_size demo_rescaled = (128, 64)"
    and "\<exists>bs. pack_image demo_rescaled = Inr bs \<and> length bs = 1024
           \<and> (encodable lib_demo
                  (report_text (ascii ''logo.bmp'') (ascii ''image_data'') demo_rescaled bs) \<longrightarrow>
                convert_bmp_to_ssd1306_array lib_demo (ascii ''logo.bmp'') (ascii ''image_data'')
                    console0
                  = (Returned,
                     says (warning_text (im_size dark_100x50)
                           @ report_text (ascii ''logo.bmp'') (ascii ''image_data'')
                               demo_rescaled bs) console0))"
    by blast+
  then obtain bs
    where "pack_image demo_rescaled = Inr bs"
      and run: "encodable lib_demo
                  (report_text (ascii ''logo.bmp'') (ascii ''image_data'') demo_rescaled bs) \<longrightarrow>
                convert_bmp_to_ssd1306_array lib_demo (ascii ''logo.bmp'') (ascii ''image_data'')
                    console0
                  = (Returned,
                     says (warning_text (im_size dark_100x50)
                           @ report_text (ascii ''logo.bmp'') (ascii ''image_data'')
                               demo_rescaled bs) console0)"
    by blast
  then have "bs = ff_bytes"
    by (simp add: demo_packed)
  with run demo_encodable
  have returned:
    "convert_bmp_to_ssd1306_array lib_demo (ascii ''logo.bmp'') (ascii ''image_data'') console0
       = (Returned,
          says (warning_text (im_size dark_100x50)
                @ report_text (ascii ''logo.bmp'') (ascii ''image_data'') demo_rescaled ff_bytes)
            console0)"
    by blast
  note truncated =
    mismatch_is_rescaled [OF truncated_opened demo_mismatch truncated_encodable,
      of "ascii ''image_data''" console0]
  from truncated truncated_rescaled_image truncated_encodable
  have exited:
    "convert_bmp_to_ssd1306_array lib_truncated (ascii ''logo.bmp'') (ascii ''image_data'')
         console0
       = (SystemExit 1,
          says (warning_text (im_size dark_100x50)
                @ msg_error @ str_exception (LibraryError (ascii ''image file is truncated''))
                @ [10])
            console0)"
    by blast
  from demo_opened demo_mismatch demo_encodable demo_rescaled_image size demo_packed
    demo_encodable returned truncated_opened truncated_encodable truncated_rescaled_image
    truncated_encodable exited
  show ?thesis
    by (intro conjI)
qed

section \<open>The missing input file\<close>

lemma main_not_found_printed:
  assumes "\<not> os_path_exists lib args_input"
    and "encodable lib (msg_not_found args_input @ [10])"
  shows "main lib args_input c = (SystemExit 1, says (msg_not_found args_input @ [10]) c)"
proof -
  from assms(2) have message: "encodable lib (msg_not_found args_input)"
    and newline: "encodable lib [10]"
    by (simp_all add: encodable_append)
  show ?thesis
    using assms(1) by (simp add: main_def py_print_ok [OF message newline])
qed

lemma main_not_found_raised:
  assumes "\<not> os_path_exists lib args_input"
    and "\<not> encodable lib (msg_not_found args_input)"
  shows "main lib args_input c
           = (Uncaught (UnicodeEncodeError (encode_error lib (msg_not_found args_input))), c)"
  using assms(1) by (simp add: main_def py_print_raises [OF assms(2)])

lemma main_not_found_cases:
  assumes "\<not> os_path_exists lib args_input"
  shows "exit_status (fst (main lib args_input c)) = 1
         \<and> (stdout (snd (main lib args_input c)) = stdout c
            \<or> stdout (snd (main lib args_input c)) = stdout c @ msg_not_found args_input
            \<or> stdout (snd (main lib args_input c)) = stdout c @ msg_not_found args_input @ [10])"
  using assms
  by (simp add: main_def py_print_def write_stdout_def and_then_def)

lemma script_main:
  "fst (script lib args_input c) = exit_status (fst (main lib args_input c))
   \<and> stdout (snd (script lib args_input c)) = stdout (snd (main lib args_input c))"
  by (cases "main lib args_input c"; cases "fst (main lib args_input c)")
     (simp_all add: script_def)

lemma demo_missing: "\<not> os_path_exists lib_demo (ascii ''missing.bmp'')"
  by (simp add: lib_demo_def ascii_def)

lemma ascii_missing: "\<not> os_path_exists lib_ascii (ascii ''missing.bmp'')"
  by (simp add: lib_ascii_def lib_demo_def ascii_def)

lemma ascii_not_encodable: "\<not> encodable lib_ascii (msg_not_found path)"
  by (simp add: encodable_def lib_ascii_def lib_demo_def msg_not_found_def)

text \<open>
  C9, as stated, fails: with a standard output that can encode the message, the error
  message for the missing file \<open>missing.bmp\<close> goes to standard output, and nothing is
  written to standard error.
\<close>

theorem missing_file_counterexample:
  "\<not> os_path_exists lib_demo (ascii ''missing.bmp'')
   \<and> fst (script lib_demo (ascii ''missing.bmp'') console0) = 1
   \<and> stderr (snd (script lib_demo (ascii ''missing.bmp'') console0)) = []
   \<and> stdout (snd (script lib_demo (ascii ''missing.bmp'') console0))
       = msg_not_found (ascii ''missing.bmp'') @ [10]"
  using demo_missing
  by (simp add: script_def main_not_found_printed [OF demo_missing demo_encodable]
        says_def console0_def)

text \<open>
  C9, amended: for every input path that does not name an existing file the program exits
  with status 1 and emits no packed output: standard output receives at most the one
  line of the error message.  When standard output can encode the message, the message
  and a newline are written to standard output and nothing to standard error.  When it
  cannot, \<open>print\<close> raises \<open>UnicodeEncodeError\<close>, which nothing catches: nothing is
  written to standard output and the interpreter writes the traceback to standard
  error.
\<close>

theorem missing_file:
  assumes "\<not> os_path_exists lib args_input"
  shows "fst (script lib args_input c) = 1
         \<and> (stdout (snd (script lib args_input c)) = stdout c
            \<or> stdout (snd (script lib args_input c)) = stdout c @ msg_not_found args_input
            \<or> stdout (snd (script lib args_input c))
                = stdout c @ msg_not_found args_input @ [10])
         \<and> (encodable lib (msg_not_found args_input @ [10]) \<longrightarrow>
               main lib args_input c
                 = (SystemExit 1, says (msg_not_found args_input @ [10]) c)
               \<and> script lib args_input c = (1, says (msg_not_found args_input @ [10]) c))
         \<and> (\<not> encodable lib (msg_not_found args_input) \<longrightarrow>
               main lib args_input c
                 = (Uncaught (UnicodeEncodeError (encode_error lib (msg_not_found args_input))),
                    c)
               \<and> script lib args_input c
                   = (1, c\<lparr>stderr := stderr c @ traceback lib
                             (UnicodeEncodeError (encode_error lib (msg_not_found args_input)))\<rparr>))"
proof -
  from main_not_found_cases [OF assms, of c] script_main [of lib args_input c]
  have status: "fst (script lib args_input c) = 1"
    and out: "stdout (snd (script lib args_input c)) = stdout c
            \<or> stdout (snd (script lib args_input c)) = stdout c @ msg_not_found args_input
            \<or> stdout (snd (script lib args_input c))
                = stdout c @ msg_not_found args_input @ [10]"
    by simp_all
  have printed: "main lib args_input c
                   = (SystemExit 1, says (msg_not_found args_input @ [10]) c)
                 \<and> script lib args_input c = (1, says (msg_not_found args_input @ [10]) c)"
    if "encodable lib (msg_not_found args_input @ [10])"
    by (simp add: script_def main_not_found_printed [OF assms that])
  have raised: "main lib args_input c
                  = (Uncaught (UnicodeEncodeError (encode_error lib (msg_not_found args_input))),
                     c)
                \<and> script lib args_input c
                    = (1, c\<lparr>stderr := stderr c @ traceback lib
                              (UnicodeEncodeError (encode_error lib (msg_not_found args_input)))\<rparr>)"
    if "\<not> encodable lib (msg_not_found args_input)"
    by (simp add: script_def main_not_found_raised [OF assms that])
  from status out printed raised show ?thesis
    by blast
qed

theorem missing_file_witness:
  "\<not> os_path_exists lib_demo (ascii ''missing.bmp'')
   \<and> encodable lib_demo (msg_not_found (ascii ''missing.bmp'') @ [10])
   \<and> fst (script lib_demo (ascii ''missing.bmp'') console0) = 1
   \<and> script lib_demo (ascii ''missing.bmp'') console0
       = (1, says (msg_not_found (ascii ''missing.bmp'') @ [10]) console0)
   \<and> \<not> os_path_exists lib_ascii (ascii ''missing.bmp'')
   \<and> \<not> encodable lib_ascii (msg_not_found (ascii ''missing.bmp''))
   \<and> script lib_ascii (ascii ''missing.bmp'') console0
       = (1, console0\<lparr>stderr := stderr console0 @ traceback lib_ascii
                (UnicodeEncodeError
                   (encode_error lib_ascii (msg_not_found (ascii ''missing.bmp''))))\<rparr>)"
proof -
  from missing_file [OF demo_missing, of console0] demo_encodable
  have status: "fst (script lib_demo (ascii ''missing.bmp'') console0) = 1"
    and printed: "script lib_demo (ascii ''missing.bmp'') console0
                    = (1, says (msg_not_found (ascii ''missing.bmp'') @ [10]) console0)"
    by blast+
  from missing_file [OF ascii_missing, of console0] ascii_not_encodable
  have raised: "script lib_ascii (ascii ''missing.bmp'') console0
       = (1, console0\<lparr>stderr := stderr console0 @ traceback lib_ascii
                (UnicodeEncodeError
                   (encode_error lib_ascii (msg_not_found (ascii ''missing.bmp''))))\<rparr>)"
    by blast
  from demo_missing demo_encodable status printed ascii_missing ascii_not_encodable raised
  show ?thesis
    by (intro conjI)
qed

end
